theory Spec2Isabelle
  imports Main
begin

section \<open>Python and numpy values used by the index translation layer\<close>

text \<open>
  The sources modelled are \<^verbatim>\<open>src/tiledb/segy/utils.py\<close> and
  \<^verbatim>\<open>src/tilesegy/indexables.py\<close>. Python integers are unbounded (\<^typ>\<open>int\<close>). The
  elements of a numpy integer array and numpy integer scalars have a fixed-width dtype:
  arithmetic between arrays, and between a numpy scalar and a small Python integer, is
  done in that dtype and wraps around at its limits (for scalars this is numpy's
  promotion rule since version 2).

  Every \<^verbatim>\<open>raise\<close> of the sources, and every failure of a Python or numpy primitive
  the sources call, is a constructor of \<open>error\<close>; a function that can fail returns
  \<open>error + 'a\<close> with \<open>Inl\<close> for the exception.
\<close>

datatype error =
    TypeError_cannot_index
  | TypeError_cannot_convert
  | ValueError_non_integer_array
  | ValueError_nd_array
  | ValueError_empty_array
  | ValueError_non_monotonic
  | MultiSliceError
  | ValueError_labels_not_integers
  | ValueError_duplicate_labels
  | ValueError_not_in_labels
  | ValueError_no_overlap
  | ValueError_not_a_slice
  | AssertionError
  | ValueError_slice_step_zero
  | ValueError_negative_length
  | ValueError_zero_size_reduction
  | IndexError_out_of_bounds
  | ValueError_unravel
  | Numpy_shape_mismatch
  | Numpy_arange_zero_step
  | ValueError_unpack
  | StopIteration

text \<open>
  A Python \<^verbatim>\<open>slice(start, stop, step)\<close>: each field is an integer or \<^verbatim>\<open>None\<close>.
  \<^verbatim>\<open>slice(a, b)\<close> is \<open>Slice (Some a) (Some b) None\<close>; it is a different object from
  \<^verbatim>\<open>slice(a, b, 1)\<close> (Python compares slices field by field).
\<close>

datatype pyslice = Slice (start: "int option") (stop: "int option") (step: "int option")

text \<open>\<^verbatim>\<open>slice.indices(length)\<close> of CPython: the concrete \<open>(start, stop, step)\<close> of a
  slice over a sequence of the given length. It rejects a negative length, then a zero
  step; a negative bound counts from the end, and both bounds are clamped.\<close>

definition slice_indices :: "pyslice \<Rightarrow> int \<Rightarrow> error + (int \<times> int \<times> int)" where
  "slice_indices s len =
     (let st = (case step s of None \<Rightarrow> 1 | Some k \<Rightarrow> k) in
      if len < 0 then Inl ValueError_negative_length
      else if st = 0 then Inl ValueError_slice_step_zero
      else
        let lower = (if st < 0 then -1 else 0);
            upper = (if st < 0 then len - 1 else len);
            a = (case start s of
                   None \<Rightarrow> (if st < 0 then upper else lower)
                 | Some v \<Rightarrow> (if v < 0 then max (v + len) lower else min v upper));
            b = (case stop s of
                   None \<Rightarrow> (if st < 0 then lower else upper)
                 | Some v \<Rightarrow> (if v < 0 then max (v + len) lower else min v upper))
        in Inr (a, b, st))"

text \<open>\<^verbatim>\<open>np.arange(start, stop, step)\<close> on integers, for a nonzero step: the
  \<open>ceil ((stop - start) / step)\<close> values \<open>start + k * step\<close>.\<close>

definition arange_len :: "int \<Rightarrow> int \<Rightarrow> int \<Rightarrow> nat" where
  "arange_len a b st = nat (- ((a - b) div st))"

definition arange :: "int \<Rightarrow> int \<Rightarrow> int \<Rightarrow> int list" where
  "arange a b st = map (\<lambda>k. a + int k * st) [0..<arange_len a b st]"

text \<open>\<^verbatim>\<open>np.arange(n)[s]\<close>, which is also what a backend axis of extent \<open>n\<close> yields
  for the selector \<open>s\<close>: the ordinals the slice selects, in the slice's order.\<close>

definition slice_select :: "nat \<Rightarrow> pyslice \<Rightarrow> error + int list" where
  "slice_select n s =
     (case slice_indices s (int n) of
        Inl e \<Rightarrow> Inl e
      | Inr (a, b, st) \<Rightarrow> Inr (arange a b st))"

text \<open>\<^verbatim>\<open>np.unique\<close>: the sorted distinct values.\<close>

definition np_unique :: "int list \<Rightarrow> int list" where
  "np_unique xs = sort (remdups xs)"

text \<open>
  The integer dtypes of numpy (the subclasses of \<^verbatim>\<open>np.integer\<close>), their ranges, and the
  wrap-around of a result into the range of its dtype. \<open>Int64\<close> is \<^verbatim>\<open>np.intp\<close>, the dtype of
  positions (\<^verbatim>\<open>np.arange\<close> of Python integers, \<^verbatim>\<open>argsort\<close>, \<^verbatim>\<open>unravel_index\<close>).
\<close>

datatype int_dtype = Int8 | Int16 | Int32 | Int64 | UInt8 | UInt16 | UInt32 | UInt64

fun dtype_min :: "int_dtype \<Rightarrow> int" where
  "dtype_min Int8 = - (2 ^ 7)"
| "dtype_min Int16 = - (2 ^ 15)"
| "dtype_min Int32 = - (2 ^ 31)"
| "dtype_min Int64 = - (2 ^ 63)"
| "dtype_min _ = 0"

fun dtype_max :: "int_dtype \<Rightarrow> int" where
  "dtype_max Int8 = 2 ^ 7 - 1"
| "dtype_max Int16 = 2 ^ 15 - 1"
| "dtype_max Int32 = 2 ^ 31 - 1"
| "dtype_max Int64 = 2 ^ 63 - 1"
| "dtype_max UInt8 = 2 ^ 8 - 1"
| "dtype_max UInt16 = 2 ^ 16 - 1"
| "dtype_max UInt32 = 2 ^ 32 - 1"
| "dtype_max UInt64 = 2 ^ 64 - 1"

definition in_range :: "int_dtype \<Rightarrow> int \<Rightarrow> bool" where
  "in_range k x \<longleftrightarrow> dtype_min k \<le> x \<and> x \<le> dtype_max k"

definition wrap :: "int_dtype \<Rightarrow> int \<Rightarrow> int" where
  "wrap k x = (x - dtype_min k) mod (dtype_max k - dtype_min k + 1) + dtype_min k"

text \<open>
  A numpy array as far as the sources look at it: its dtype (an integer dtype or not), its
  number of dimensions and, for at most one dimension, its values. The sources test the
  dtype before they read any value, so the values of a non-integer array are never used.
  \<open>ArrayHi dt k\<close> is an array of \<open>k + 2\<close> dimensions.
\<close>

datatype dtype = Integer int_dtype | OtherDType

datatype ndarray =
    Array0 dtype int
  | Array1 dtype "int list"
  | ArrayHi dtype nat

fun dtype_of :: "ndarray \<Rightarrow> dtype" where
  "dtype_of (Array0 dt _) = dt"
| "dtype_of (Array1 dt _) = dt"
| "dtype_of (ArrayHi dt _) = dt"

fun ndim :: "ndarray \<Rightarrow> nat" where
  "ndim (Array0 _ _) = 0"
| "ndim (Array1 _ _) = 1"
| "ndim (ArrayHi _ k) = k + 2"

section \<open>SliceNormalizer: \<^verbatim>\<open>TiledbArrayWrapper._normalize_index\<close>\<close>

text \<open>The index argument of \<^verbatim>\<open>__getitem__\<close>: an integer, a slice, a tuple of indices or
  the ellipsis.\<close>

datatype index = IInt int | ISlice pyslice | ITuple "index list" | IEllipsis

definition normalize_slice :: "pyslice \<Rightarrow> pyslice" where
  "normalize_slice s =
     (if step s = None \<or> (case step s of Some k \<Rightarrow> k > 0 | None \<Rightarrow> False)
         \<or> (start s = None \<and> stop s = None)
      then s
      else Slice (case stop s of Some v \<Rightarrow> Some (v + 1) | None \<Rightarrow> None)
                 (case start s of Some v \<Rightarrow> Some (v + 1) | None \<Rightarrow> None)
                 (step s))"

fun normalize_index :: "index \<Rightarrow> index" where
  "normalize_index (ISlice s) = ISlice (normalize_slice s)"
| "normalize_index (ITuple t) = ITuple (map normalize_index t)"
| "normalize_index i = i"

section \<open>ArrayConverter: \<^verbatim>\<open>ensure_slice\<close>\<close>

text \<open>The argument of the single-dispatch function \<^verbatim>\<open>ensure_slice\<close>: a slice, a Python
  integer, a numpy integer scalar with its dtype, an array, or anything else.\<close>

datatype obj = OSlice pyslice | OInt int | ONpInteger int_dtype int | OArray ndarray | OOther

text \<open>\<^verbatim>\<open>_ensure_slice_int\<close>, registered for \<^verbatim>\<open>int\<close> and for \<^verbatim>\<open>np.integer\<close>: for a numpy
  scalar \<^verbatim>\<open>i + 1\<close> is computed in the dtype of \<open>i\<close>.\<close>

definition ensure_slice_int :: "int \<Rightarrow> pyslice" where
  "ensure_slice_int i = Slice (Some i) (Some (i + 1)) None"

definition ensure_slice_np_integer :: "int_dtype \<Rightarrow> int \<Rightarrow> pyslice" where
  "ensure_slice_np_integer k i = Slice (Some i) (Some (wrap k (i + 1))) None"

text \<open>
  \<^verbatim>\<open>_ensure_slice_array\<close>. \<^verbatim>\<open>a.item()\<close> is a Python integer. The differences
  \<^verbatim>\<open>a[1:] - a[:-1]\<close> are taken in the dtype of the array, and so is \<^verbatim>\<open>a[-1] + 1\<close> or
  \<^verbatim>\<open>a[-1] + -1\<close>, the sum of a numpy scalar and a Python integer. (For an unsigned dtype
  no difference is negative, so the step is positive and only \<^verbatim>\<open>+ 1\<close> is reached.)
\<close>

definition diffs_of :: "int_dtype \<Rightarrow> int list \<Rightarrow> int list" where
  "diffs_of k a = map (\<lambda>(x, y). wrap k (x - y)) (zip (tl a) (butlast a))"

fun ensure_slice_array :: "ndarray \<Rightarrow> error + pyslice" where
  "ensure_slice_array a =
     (case dtype_of a of
        OtherDType \<Rightarrow> Inl ValueError_non_integer_array
      | Integer k \<Rightarrow>
          if ndim a > 1 then Inl ValueError_nd_array
          else case a of
            Array0 _ v \<Rightarrow> Inr (ensure_slice_int v)
          | ArrayHi _ _ \<Rightarrow> Inl ValueError_nd_array
          | Array1 _ xs \<Rightarrow>
              (if length xs = 0 then Inl ValueError_empty_array
               else if length xs = 1 then Inr (ensure_slice_int (hd xs))
               else
                 let diffs = diffs_of k xs in
                 if \<not> (list_all (\<lambda>d. d > 0) diffs \<or> list_all (\<lambda>d. d < 0) diffs)
                 then Inl ValueError_non_monotonic
                 else
                   let unique_diffs = np_unique diffs in
                   if length unique_diffs > 1 then Inl MultiSliceError
                   else
                     let st = hd unique_diffs;
                         sp = wrap k (last xs + (if st > 0 then 1 else -1))
                     in Inr (Slice (Some (hd xs)) (Some sp) (Some st))))"

fun ensure_slice :: "obj \<Rightarrow> error + pyslice" where
  "ensure_slice (OSlice s) = Inr s"
| "ensure_slice (OInt i) = Inr (ensure_slice_int i)"
| "ensure_slice (ONpInteger k i) = Inr (ensure_slice_np_integer k i)"
| "ensure_slice (OArray a) = ensure_slice_array a"
| "ensure_slice OOther = Inl TypeError_cannot_convert"

text \<open>The integers a slice with explicit bounds denotes over an unbounded ascending
  domain (no clamping to an extent, no wrap of negative bounds).\<close>

definition slice_enum :: "pyslice \<Rightarrow> int list" where
  "slice_enum s =
     (case (start s, stop s) of
        (Some a, Some b) \<Rightarrow> arange a b (case step s of None \<Rightarrow> 1 | Some k \<Rightarrow> k)
      | _ \<Rightarrow> [])"

section \<open>LabelIndexer\<close>

text \<open>
  \<^verbatim>\<open>Index = Union[int, slice]\<close>: what a label indexer is asked for and what it answers
  (an ordinal or a slice of ordinals), and one slot of the composite backend selector.
\<close>

datatype axis_index = AInt int | ASlice pyslice

text \<open>
  The state of a \<^verbatim>\<open>LabelIndexer\<close>. The class is written twice, in
  \<^verbatim>\<open>tiledb/segy/utils.py\<close> and in \<^verbatim>\<open>tilesegy/indexables.py\<close>, with constructors that
  compute the same values: \<^verbatim>\<open>labels.max() + 1\<close> is taken in the dtype of the labels in
  both, and the first then converts the two bounds to Python integers, which the second
  keeps as numpy scalars. The label array is one-dimensional; \<open>labels_dtype\<close> is its dtype.
\<close>

record label_indexer =
  labels :: "int list"
  labels_dtype :: int_dtype
  min_label :: int
  max_label :: int
  sorter :: "nat list"

text \<open>\<^verbatim>\<open>a.min()\<close> and \<^verbatim>\<open>a.max()\<close>: numpy raises \<^verbatim>\<open>ValueError\<close> on a zero-size
  array.\<close>

definition np_min :: "int list \<Rightarrow> error + int" where
  "np_min xs = (case xs of [] \<Rightarrow> Inl ValueError_zero_size_reduction
                | x # r \<Rightarrow> Inr (fold min r x))"

definition np_max :: "int list \<Rightarrow> error + int" where
  "np_max xs = (case xs of [] \<Rightarrow> Inl ValueError_zero_size_reduction
                | x # r \<Rightarrow> Inr (fold max r x))"

text \<open>\<^verbatim>\<open>a.argsort()\<close>: the positions of \<open>a\<close> in ascending order of their values.\<close>

definition argsort :: "int list \<Rightarrow> nat list" where
  "argsort xs = map snd (sort_key fst (zip xs [0..<length xs]))"

definition LabelIndexer_init :: "dtype \<Rightarrow> int list \<Rightarrow> error + label_indexer" where
  "LabelIndexer_init dt ls =
     (case dt of
        OtherDType \<Rightarrow> Inl ValueError_labels_not_integers
      | Integer k \<Rightarrow>
          if length (np_unique ls) \<noteq> length ls then Inl ValueError_duplicate_labels
          else case np_min ls of
            Inl e \<Rightarrow> Inl e
          | Inr mn \<Rightarrow>
             (case np_max ls of
                Inl e \<Rightarrow> Inl e
              | Inr mx \<Rightarrow>
                  Inr \<lparr>labels = ls, labels_dtype = k, min_label = mn,
                       max_label = wrap k (mx + 1), sorter = argsort ls\<rparr>))"

text \<open>\<^verbatim>\<open>np.flatnonzero(label == self._labels)\<close>: the positions holding the label.\<close>

definition flatnonzero_eq :: "int \<Rightarrow> int list \<Rightarrow> nat list" where
  "flatnonzero_eq v ls = filter (\<lambda>i. ls ! i = v) [0..<length ls]"

text \<open>The scalar lookup: \<^verbatim>\<open>_get_one\<close> of \<^verbatim>\<open>utils.py\<close>, and the default
  \<^verbatim>\<open>__getitem__\<close> of \<^verbatim>\<open>indexables.py\<close>, which has the same body.\<close>

definition get_one :: "label_indexer \<Rightarrow> int \<Rightarrow> error + nat" where
  "get_one ix label =
     (let indices = flatnonzero_eq label (labels ix) in
      if \<not> length indices \<le> 1 then Inl AssertionError
      else if length indices = 0 then Inl ValueError_not_in_labels
      else Inr (hd indices))"

text \<open>\<^verbatim>\<open>a.searchsorted(v, sorter=sorter)\<close>, side left: the first position of the
  sorted order whose label is not below \<open>v\<close>.\<close>

definition searchsorted :: "int list \<Rightarrow> nat list \<Rightarrow> int \<Rightarrow> nat" where
  "searchsorted ls srt v = length (takeWhile (\<lambda>i. ls ! i < v) srt)"

text \<open>\<^verbatim>\<open>a[positions]\<close> with an integer array: numpy raises \<^verbatim>\<open>IndexError\<close> when a
  position is out of bounds.\<close>

definition take_positions :: "'a list \<Rightarrow> nat list \<Rightarrow> error + 'a list" where
  "take_positions a ps =
     (if list_all (\<lambda>p. p < length a) ps then Inr (map (\<lambda>p. a ! p) ps)
      else Inl IndexError_out_of_bounds)"

text \<open>
  \<^verbatim>\<open>_label_slice_to_indices\<close> of \<^verbatim>\<open>utils.py\<close> and the first half of \<^verbatim>\<open>_get_slice\<close> of
  \<^verbatim>\<open>indexables.py\<close>: the storage ordinals a label slice resolves to. Both first clamp an
  open or too low bound to the label domain; \<^verbatim>\<open>min_label - 1\<close> is exact in \<^verbatim>\<open>utils.py\<close>,
  where \<^verbatim>\<open>min_label\<close> is a Python integer, and taken in the dtype of the labels in
  \<^verbatim>\<open>indexables.py\<close>, where it is a numpy scalar. The rest, \<open>resolve_label_range\<close>, is the
  same text in both: the candidate labels, their search in the sorted labels, and the
  filter that keeps the candidates found.
\<close>

definition clamp_label_slice :: "int \<Rightarrow> int \<Rightarrow> pyslice \<Rightarrow> pyslice" where
  "clamp_label_slice mn mn1 s =
     (if step s = None \<or> (case step s of Some k \<Rightarrow> k > 0 | None \<Rightarrow> False)
      then (if start s = None \<or> (case start s of Some a \<Rightarrow> a < mn | None \<Rightarrow> False)
            then Slice (Some mn) (stop s) (step s)
            else s)
      else (if stop s = None \<or> (case stop s of Some b \<Rightarrow> b < mn1 | None \<Rightarrow> False)
            then Slice (start s) (Some mn1) (step s)
            else s))"

definition resolve_label_range :: "label_indexer \<Rightarrow> pyslice \<Rightarrow> error + nat list" where
  "resolve_label_range ix s =
     (case slice_indices s (max_label ix) of
        Inl e \<Rightarrow> Inl e
      | Inr (a, b, st) \<Rightarrow>
          let label_range = arange a b st in
          (case take_positions (sorter ix)
                  (map (searchsorted (labels ix) (sorter ix)) label_range) of
             Inl e \<Rightarrow> Inl e
           | Inr indices \<Rightarrow>
               Inr (map fst (filter (\<lambda>(i, l). labels ix ! i = l) (zip indices label_range)))))"

definition label_slice_to_indices :: "label_indexer \<Rightarrow> pyslice \<Rightarrow> error + nat list" where
  "label_slice_to_indices ix s =
     resolve_label_range ix (clamp_label_slice (min_label ix) (min_label ix - 1) s)"

definition get_slice_indices ::
  "label_indexer \<Rightarrow> pyslice \<Rightarrow> error + nat list" where
  "get_slice_indices ix s =
     resolve_label_range ix
       (clamp_label_slice (min_label ix) (wrap (labels_dtype ix) (min_label ix - 1)) s)"

text \<open>\<^verbatim>\<open>LabelIndexer._get_many\<close> and \<^verbatim>\<open>__getitem__\<close> of \<^verbatim>\<open>utils.py\<close>; the resolved
  ordinals are an array of dtype \<^verbatim>\<open>intp\<close>.\<close>

definition utils_get_many :: "label_indexer \<Rightarrow> pyslice \<Rightarrow> error + pyslice" where
  "utils_get_many ix s =
     (case label_slice_to_indices ix s of
        Inl e \<Rightarrow> Inl e
      | Inr indices \<Rightarrow> ensure_slice (OArray (Array1 (Integer Int64) (map int indices))))"

fun utils_getitem :: "label_indexer \<Rightarrow> axis_index \<Rightarrow> error + axis_index" where
  "utils_getitem ix (AInt v) =
     (case get_one ix v of Inl e \<Rightarrow> Inl e | Inr p \<Rightarrow> Inr (AInt (int p)))"
| "utils_getitem ix (ASlice s) =
     (case utils_get_many ix s of Inl e \<Rightarrow> Inl e | Inr r \<Rightarrow> Inr (ASlice r))"

text \<open>
  \<^verbatim>\<open>(np.arange(start, stop, step) != indices).any()\<close>: numpy compares element by
  element, stretching an operand of length 1; operands of other differing lengths cannot
  be broadcast and the comparison fails.
\<close>

definition ne_any :: "int list \<Rightarrow> int list \<Rightarrow> error + bool" where
  "ne_any xs ys =
     (if length xs = length ys then Inr (list_ex (\<lambda>(x, y). x \<noteq> y) (zip xs ys))
      else if length xs = 1 then Inr (list_ex (\<lambda>y. hd xs \<noteq> y) ys)
      else if length ys = 1 then Inr (list_ex (\<lambda>x. x \<noteq> hd ys) xs)
      else Inl Numpy_shape_mismatch)"

text \<open>\<^verbatim>\<open>LabelIndexer._get_slice\<close> and \<^verbatim>\<open>__getitem__\<close> of \<^verbatim>\<open>indexables.py\<close>.
  \<open>indices_to_slice\<close> is the second half of \<^verbatim>\<open>_get_slice\<close>, from the resolved ordinals to
  the slice; the ordinals are numpy scalars of dtype \<^verbatim>\<open>intp\<close>, and \<^verbatim>\<open>np.arange\<close> rejects
  a zero step.\<close>

definition indices_to_slice :: "int list \<Rightarrow> error + pyslice" where
  "indices_to_slice indices =
     (if length indices = 0 then Inl ValueError_no_overlap
      else
        let a = hd indices;
            st = (if length indices > 1 then wrap Int64 (indices ! 1 - a) else 1);
            b = wrap Int64 (last indices + (if st > 0 then 1 else -1))
        in if st = 0 then Inl Numpy_arange_zero_step
           else case ne_any (arange a b st) indices of
             Inl e \<Rightarrow> Inl e
           | Inr True \<Rightarrow> Inl ValueError_not_a_slice
           | Inr False \<Rightarrow> Inr (Slice (Some a) (Some b) (Some st)))"

definition indexables_get_slice :: "label_indexer \<Rightarrow> pyslice \<Rightarrow> error + pyslice" where
  "indexables_get_slice ix s =
     (case get_slice_indices ix s of
        Inl e \<Rightarrow> Inl e
      | Inr inds \<Rightarrow> indices_to_slice (map int inds))"

fun indexables_getitem :: "label_indexer \<Rightarrow> axis_index \<Rightarrow> error + axis_index" where
  "indexables_getitem ix (AInt v) =
     (case get_one ix v of Inl e \<Rightarrow> Inl e | Inr p \<Rightarrow> Inr (AInt (int p)))"
| "indexables_getitem ix (ASlice s) =
     (case indexables_get_slice ix s of Inl e \<Rightarrow> Inl e | Inr r \<Rightarrow> Inr (ASlice r))"

section \<open>TraceIndexer and StructuredTraceIndexer\<close>

text \<open>\<^verbatim>\<open>TraceIndexer.__len__\<close>: the product of the shape.\<close>

definition TraceIndexer_len :: "nat list \<Rightarrow> nat" where
  "TraceIndexer_len shape = prod_list shape"

text \<open>
  \<^verbatim>\<open>np.unravel_index\<close> in C order. \<open>unravel_coords shape k\<close> is the coordinate tuple of
  the flat index \<open>k\<close>. For an array of flat indices numpy returns one coordinate array
  per axis; it rejects an index outside \<open>[0, prod shape)\<close>, and an array of indices for a
  shape of no axes.
\<close>

fun unravel_coords :: "nat list \<Rightarrow> int \<Rightarrow> int list" where
  "unravel_coords [] k = []"
| "unravel_coords (d # ds) k = (k div int (prod_list ds)) mod int d # unravel_coords ds k"

definition unravel_index :: "int list \<Rightarrow> nat list \<Rightarrow> error + int list list" where
  "unravel_index ks shape =
     (if shape = [] then Inl ValueError_unravel
      else if \<not> list_all (\<lambda>k. 0 \<le> k \<and> k < int (prod_list shape)) ks
      then Inl ValueError_unravel
      else Inr (map (\<lambda>j. map (\<lambda>k. unravel_coords shape k ! j) ks) [0..<length shape]))"

text \<open>\<^verbatim>\<open>zip(*arrays)\<close>: the tuples of the elements at equal positions, up to the shortest
  array; nothing for no array.\<close>

definition zip_star :: "'a list list \<Rightarrow> 'a list list" where
  "zip_star xss =
     (if xss = [] then []
      else map (\<lambda>i. map (\<lambda>xs. xs ! i) xss) [0..<Min (set (map length xss))])"

text \<open>\<^verbatim>\<open>itertools.product(*arrays)\<close>: the cartesian product, the last array varying
  fastest.\<close>

fun it_product :: "'a list list \<Rightarrow> 'a list list" where
  "it_product [] = [[]]"
| "it_product (xs # xss) = concat (map (\<lambda>x. map (\<lambda>p. x # p) (it_product xss)) xs)"

text \<open>\<^verbatim>\<open>tuple(map(f, xs))\<close> for an \<open>f\<close> that can raise: the first exception ends it.\<close>

fun sequence_results :: "(error + 'a) list \<Rightarrow> error + 'a list" where
  "sequence_results [] = Inr []"
| "sequence_results (r # rs) =
     (case r of
        Inl e \<Rightarrow> Inl e
      | Inr v \<Rightarrow> (case sequence_results rs of Inl e \<Rightarrow> Inl e | Inr vs \<Rightarrow> Inr (v # vs)))"

text \<open>The result of \<^verbatim>\<open>StructuredTraceIndexer.__getitem__\<close>: the bounding box, one selector
  per axis, and the positions to take from the flattened bounding box (\<open>None\<close> is the
  ellipsis: take everything).\<close>

type_synonym trace_selection = "axis_index list \<times> nat list option"

text \<open>\<^verbatim>\<open>StructuredTraceIndexer._get_one\<close>.\<close>

definition StructuredTraceIndexer_get_one :: "nat list \<Rightarrow> int \<Rightarrow> error + trace_selection" where
  "StructuredTraceIndexer_get_one shape trace_index =
     (if 0 \<le> trace_index \<and> trace_index < int (prod_list shape)
      then Inr (map AInt (unravel_coords shape trace_index), None)
      else Inl ValueError_unravel)"

text \<open>\<^verbatim>\<open>StructuredTraceIndexer._get_many\<close>; the coordinate arrays have dtype
  \<^verbatim>\<open>intp\<close>.\<close>

definition StructuredTraceIndexer_get_many :: "nat list \<Rightarrow> pyslice \<Rightarrow> error + trace_selection" where
  "StructuredTraceIndexer_get_many shape trace_index =
     (case slice_select (TraceIndexer_len shape) trace_index of
        Inl e \<Rightarrow> Inl e
      | Inr raveled_indices \<Rightarrow>
     (case unravel_index raveled_indices shape of
        Inl e \<Rightarrow> Inl e
      | Inr unraveled_indices \<Rightarrow>
          let unique_unraveled_indices = map np_unique unraveled_indices in
          (case sequence_results
                  (map (\<lambda>u. ensure_slice (OArray (Array1 (Integer Int64) u)))
                     unique_unraveled_indices) of
             Inl e \<Rightarrow> Inl e
           | Inr bounding_box \<Rightarrow>
               let points = set (zip_star unraveled_indices);
                   product = it_product unique_unraveled_indices;
                   post_reshape_indices =
                     map fst (filter (\<lambda>(i, point). point \<in> points)
                                (zip [0..<length product] product))
               in Inr (map ASlice bounding_box, Some post_reshape_indices))))"

text \<open>\<^verbatim>\<open>StructuredTraceIndexer.__getitem__\<close>: single dispatch on the type of the index;
  anything but an integer or a slice is a \<^verbatim>\<open>TypeError\<close>.\<close>

fun StructuredTraceIndexer_getitem :: "nat list \<Rightarrow> index \<Rightarrow> error + trace_selection" where
  "StructuredTraceIndexer_getitem shape (IInt i) = StructuredTraceIndexer_get_one shape i"
| "StructuredTraceIndexer_getitem shape (ISlice s) = StructuredTraceIndexer_get_many shape s"
| "StructuredTraceIndexer_getitem shape _ = Inl TypeError_cannot_index"

text \<open>
  Modelled from the spec: the read of a bounding box from the storage backend and its
  flattening are done by the caller of the indexer, which is not among the sources
  (section 6: a read takes one scalar-or-slice selector per axis; a scalar selector
  removes its axis). \<open>box_cells shape box\<close> lists the storage coordinates of the cells of
  the read, in the C order of its flattening: each selector picks ordinals of its axis
  as numpy slicing does, and the cells are their cartesian product.
\<close>

definition axis_select :: "nat \<Rightarrow> axis_index \<Rightarrow> error + int list" where
  "axis_select n sel =
     (case sel of
        AInt i \<Rightarrow>
          (if - int n \<le> i \<and> i < int n then Inr [if i < 0 then i + int n else i]
           else Inl IndexError_out_of_bounds)
      | ASlice s \<Rightarrow> slice_select n s)"

definition box_cells :: "nat list \<Rightarrow> axis_index list \<Rightarrow> error + int list list" where
  "box_cells shape box =
     (case sequence_results (map (\<lambda>(n, sel). axis_select n sel) (zip shape box)) of
        Inl e \<Rightarrow> Inl e
      | Inr axes \<Rightarrow> Inr (it_product axes))"

text \<open>\<^verbatim>\<open>np.ravel_multi_index\<close>, the inverse of \<open>unravel_coords\<close>.\<close>

fun ravel :: "nat list \<Rightarrow> int list \<Rightarrow> int" where
  "ravel (d # ds) (c # cs) = c * int (prod_list ds) + ravel ds cs"
| "ravel _ _ = 0"

text \<open>The unique coordinates of one axis, as \<^verbatim>\<open>np.unique\<close> returns them for in-range
  indices: strictly ascending and within the extent of the axis.\<close>

definition axis_ok :: "nat \<Rightarrow> int list \<Rightarrow> bool" where
  "axis_ok d u \<longleftrightarrow> sorted_wrt (<) u \<and> (\<forall>c\<in>set u. 0 \<le> c \<and> c < int d)"

section \<open>Lines: the composite line and offset accessor\<close>

text \<open>
  The storage array behind a \<^verbatim>\<open>Lines\<close> accessor is outside the sources; it is a
  parameter: the dimension names of its schema, in storage order, its read for a tuple
  of per-axis selectors, and \<^verbatim>\<open>swapaxes\<close> on what a read returns. Both can fail.
\<close>

record 'a storage =
  dims :: "string list"
  read :: "axis_index list \<Rightarrow> error + 'a"
  swapaxes :: "'a \<Rightarrow> int \<Rightarrow> int \<Rightarrow> error + 'a"

record 'a lines =
  dim_name :: string
  label_indexer :: label_indexer
  offset_indexer :: label_indexer
  default_offset :: int
  data :: "'a storage"

text \<open>\<^verbatim>\<open>Lines.__init__\<close>; the label and offset arrays come with their dtypes.\<close>

definition Lines_init ::
  "string \<Rightarrow> dtype \<Rightarrow> int list \<Rightarrow> dtype \<Rightarrow> int list \<Rightarrow> 'a storage \<Rightarrow> error + 'a lines" where
  "Lines_init name ldt lbls odt offsets d =
     (case LabelIndexer_init ldt lbls of
        Inl e \<Rightarrow> Inl e
      | Inr li \<Rightarrow>
     (case LabelIndexer_init odt offsets of
        Inl e \<Rightarrow> Inl e
      | Inr oi \<Rightarrow>
     (case offsets of
        [] \<Rightarrow> Inl IndexError_out_of_bounds
      | o0 # _ \<Rightarrow>
          Inr \<lparr>dim_name = name, label_indexer = li, offset_indexer = oi,
               default_offset = o0, data = d\<rparr>)))"

text \<open>The argument of \<^verbatim>\<open>Lines.__getitem__\<close>: one index, or a tuple of indices (which the
  method unpacks into exactly two).\<close>

datatype lines_index = LinesOne axis_index | LinesTuple "axis_index list"

text \<open>The property \<^verbatim>\<open>_labels_axis\<close>: the position of the dimension named
  \<^verbatim>\<open>dim_name\<close>; \<^verbatim>\<open>next\<close> raises \<^verbatim>\<open>StopIteration\<close> when there is none.\<close>

definition labels_axis :: "'a lines \<Rightarrow> error + nat" where
  "labels_axis L =
     (case filter (\<lambda>i. dims (data L) ! i = dim_name L) [0..<length (dims (data L))] of
        [] \<Rightarrow> Inl StopIteration
      | i # _ \<Rightarrow> Inr i)"

definition offsets_axis :: nat where
  "offsets_axis = 1"

text \<open>\<^verbatim>\<open>xs[i] = v\<close> on a list raises \<^verbatim>\<open>IndexError\<close> out of range.\<close>

definition list_assign :: "'a list \<Rightarrow> nat \<Rightarrow> 'a \<Rightarrow> error + 'a list" where
  "list_assign xs i v = (if i < length xs then Inr (xs[i := v]) else Inl IndexError_out_of_bounds)"

fun is_slice :: "axis_index \<Rightarrow> bool" where
  "is_slice (ASlice _) = True"
| "is_slice (AInt _) = False"

text \<open>The body of \<^verbatim>\<open>Lines.__getitem__\<close> after the index is split into labels and
  offsets.\<close>

definition Lines_get :: "'a lines \<Rightarrow> axis_index \<Rightarrow> axis_index \<Rightarrow> error + 'a" where
  "Lines_get L lbls offsets =
     (case indexables_getitem (label_indexer L) lbls of
        Inl e \<Rightarrow> Inl e
      | Inr label_indices \<Rightarrow>
     (case indexables_getitem (offset_indexer L) offsets of
        Inl e \<Rightarrow> Inl e
      | Inr offset_indices \<Rightarrow>
     (case labels_axis L of
        Inl e \<Rightarrow> Inl e
      | Inr la \<Rightarrow>
     (case list_assign (replicate 4 (ASlice (Slice None None None))) la label_indices of
        Inl e \<Rightarrow> Inl e
      | Inr c1 \<Rightarrow>
     (case list_assign c1 offsets_axis offset_indices of
        Inl e \<Rightarrow> Inl e
      | Inr composite_index \<Rightarrow>
     (case read (data L) composite_index of
        Inl e \<Rightarrow> Inl e
      | Inr d0 \<Rightarrow>
          let multi_labels = is_slice label_indices;
              multi_offsets = is_slice offset_indices;
              major_axis =
                (if multi_labels \<and> multi_offsets then int la
                 else if multi_labels then int la - (if la > offsets_axis then 1 else 0)
                 else if multi_offsets
                   then int offsets_axis - (if offsets_axis > la then 1 else 0)
                 else 0)
          in (case (if major_axis > 0 then swapaxes (data L) d0 0 major_axis else Inr d0) of
                Inl e \<Rightarrow> Inl e
              | Inr d1 \<Rightarrow>
                  if dim_name L = ''samples'' \<and> multi_labels
                  then swapaxes (data L) d1 (- 1) (- 2)
                  else Inr d1)))))))"

text \<open>\<^verbatim>\<open>Lines.__getitem__\<close>.\<close>

definition Lines_getitem :: "'a lines \<Rightarrow> lines_index \<Rightarrow> error + 'a" where
  "Lines_getitem L i =
     (case i of
        LinesTuple [lbls, offsets] \<Rightarrow> Lines_get L lbls offsets
      | LinesTuple _ \<Rightarrow> Inl ValueError_unpack
      | LinesOne lbls \<Rightarrow> Lines_get L lbls (AInt (default_offset L)))"

text \<open>A storage for examples: a read returns the selectors it was given.\<close>

definition echo_storage :: "axis_index list storage" where
  "echo_storage = \<lparr>dims = [''ilines'', ''offsets'', ''xlines'', ''samples''],
      read = (\<lambda>c. Inr c), swapaxes = (\<lambda>d a b. Inr d)\<rparr>"

text \<open>
  Reference versions for the proofs: the conversions of a one-dimensional array and of
  resolved ordinals computed on unbounded integers. The dtype versions above agree with
  them when no intermediate value leaves the dtype (\<open>intp_ordinals\<close>: the values are
  positions of an array, from 0 to below \<open>2 ^ 63 - 1\<close>).
\<close>

definition exact_diffs :: "int list \<Rightarrow> int list" where
  "exact_diffs a = map (\<lambda>(x, y). x - y) (zip (tl a) (butlast a))"

fun ensure_slice_exact :: "int list \<Rightarrow> error + pyslice" where
  "ensure_slice_exact xs =
     (if length xs = 0 then Inl ValueError_empty_array
      else if length xs = 1 then Inr (ensure_slice_int (hd xs))
      else
        let diffs = exact_diffs xs in
        if \<not> (list_all (\<lambda>d. d > 0) diffs \<or> list_all (\<lambda>d. d < 0) diffs)
        then Inl ValueError_non_monotonic
        else
          let unique_diffs = np_unique diffs in
          if length unique_diffs > 1 then Inl MultiSliceError
          else
            let st = hd unique_diffs;
                sp = last xs + (if st > 0 then 1 else -1)
            in Inr (Slice (Some (hd xs)) (Some sp) (Some st)))"

definition indices_to_slice_exact :: "int list \<Rightarrow> error + pyslice" where
  "indices_to_slice_exact indices =
     (if length indices = 0 then Inl ValueError_no_overlap
      else
        let a = hd indices;
            st = (if length indices > 1 then indices ! 1 - a else 1);
            b = last indices + (if st > 0 then 1 else -1)
        in if st = 0 then Inl Numpy_arange_zero_step
           else case ne_any (arange a b st) indices of
             Inl e \<Rightarrow> Inl e
           | Inr True \<Rightarrow> Inl ValueError_not_a_slice
           | Inr False \<Rightarrow> Inr (Slice (Some a) (Some b) (Some st)))"

definition intp_ordinals :: "int list \<Rightarrow> bool" where
  "intp_ordinals xs \<longleftrightarrow> list_all (\<lambda>x. 0 \<le> x \<and> x < 2 ^ 63 - 1) xs"

text \<open>
  What a label slice resolves to, for the statement of the outcomes of the range lookup:
  the candidate labels \<^verbatim>\<open>np.arange(*s.indices(max_label))\<close> of a clamped slice \<open>s\<close>, and
  the positions at which candidate labels occur among the labels, in the order of the
  candidates. A list is strictly monotonic when it is strictly increasing or strictly
  decreasing.
\<close>

definition candidate_labels :: "label_indexer \<Rightarrow> pyslice \<Rightarrow> int list" where
  "candidate_labels ix s =
     (case slice_indices s (max_label ix) of
        Inl e \<Rightarrow> []
      | Inr (a, b, st) \<Rightarrow> arange a b st)"

definition label_positions :: "int list \<Rightarrow> int list \<Rightarrow> nat list" where
  "label_positions ls cands = concat (map (\<lambda>l. flatnonzero_eq l ls) cands)"

definition strictly_monotonic :: "int list \<Rightarrow> bool" where
  "strictly_monotonic xs \<longleftrightarrow> sorted_wrt (<) xs \<or> sorted_wrt (>) xs"

text \<open>A list of integers is a single arithmetic progression: it is not empty, and beyond
  one element its consecutive differences are one nonzero constant.\<close>

definition is_ap :: "int list \<Rightarrow> bool" where
  "is_ap xs \<longleftrightarrow>
     xs \<noteq> [] \<and>
     (length xs = 1 \<or>
      (xs ! 1 \<noteq> xs ! 0 \<and>
       list_all (\<lambda>i. xs ! i = xs ! 0 + int i * (xs ! 1 - xs ! 0)) [0..<length xs]))"


section \<open>Properties of the normalizer and of \<^verbatim>\<open>ensure_slice\<close>\<close>

lemma arange_len_pos_iff: "st > 0 \<Longrightarrow> k < arange_len a b st \<longleftrightarrow> a + int k * st < b"
  unfolding arange_len_def
  by (smt (verit, best) div_mult_self1 pos_imp_zdiv_neg_iff zless_nat_eq_int_zless)

lemma arange_len_neg_iff: "st < 0 \<Longrightarrow> k < arange_len a b st \<longleftrightarrow> a + int k * st > b"
  unfolding arange_len_def
  by (smt (verit, ccfv_SIG) div_mult_self1 neg_imp_zdiv_neg_iff zless_nat_eq_int_zless)

lemma nat_eq_by_less: "(\<And>k::nat. k < m \<longleftrightarrow> k < n) \<Longrightarrow> m = n"
  by (metis linorder_neqE_nat less_irrefl)

lemma length_arange [simp]: "length (arange a b st) = arange_len a b st"
  by (simp add: arange_def)

lemma nth_arange: "k < arange_len a b st \<Longrightarrow> arange a b st ! k = a + int k * st"
  by (simp add: arange_def)

lemma arange_len_ap:
  assumes "d \<noteq> 0"
  shows "arange_len a (a + int n * d + sgn d) d = Suc n"
proof (rule nat_eq_by_less)
  fix k :: nat
  show "k < arange_len a (a + int n * d + sgn d) d \<longleftrightarrow> k < Suc n"
  proof (cases "d > 0")
    case True
    have "a + int k * d < a + int n * d + 1 \<longleftrightarrow> int k * d \<le> int n * d" by auto
    also have "\<dots> \<longleftrightarrow> k \<le> n" using True by simp
    finally show ?thesis using True by (simp add: arange_len_pos_iff less_Suc_eq_le)
  next
    case False
    then have neg: "d < 0" using assms by simp
    have "a + int k * d > a + int n * d - 1 \<longleftrightarrow> int k * d \<ge> int n * d" by auto
    also have "\<dots> \<longleftrightarrow> k \<le> n" using neg by (simp add: mult_le_cancel_right)
    finally show ?thesis using neg by (simp add: arange_len_neg_iff less_Suc_eq_le)
  qed
qed

lemma exact_diffs_nth:
  "i < length a - 1 \<Longrightarrow> exact_diffs a ! i = a ! Suc i - a ! i"
  by (simp add: exact_diffs_def nth_tl nth_butlast)

lemma length_exact_diffs [simp]: "length (exact_diffs a) = length a - 1"
  by (simp add: exact_diffs_def)

lemma exact_diffs_ap:
  assumes "\<forall>i<length A. A ! i = A ! 0 + int i * d"
  shows "exact_diffs A = replicate (length A - 1) d"
proof (rule nth_equalityI)
  show "length (exact_diffs A) = length (replicate (length A - 1) d)" by simp
next
  fix i assume "i < length (exact_diffs A)"
  then have i: "i < length A - 1" by simp
  then have "A ! Suc i = A ! 0 + int (Suc i) * d" "A ! i = A ! 0 + int i * d"
    using assms by auto
  then show "exact_diffs A ! i = replicate (length A - 1) d ! i"
    using i by (simp add: exact_diffs_nth algebra_simps)
qed

lemma remdups_replicate_Suc: "remdups (replicate (Suc n) d) = [d]"
  by (induction n) auto

lemma np_unique_replicate: "np_unique (replicate (Suc n) d) = [d]"
  unfolding np_unique_def remdups_replicate_Suc by simp

lemma ensure_slice_exact_ap:
  assumes len: "length A \<ge> 2" and d: "d \<noteq> 0"
    and ap: "\<forall>i<length A. A ! i = A ! 0 + int i * d"
  shows "ensure_slice_exact A =
           Inr (Slice (Some (A ! 0)) (Some (last A + sgn d)) (Some d))"
    and "arange (A ! 0) (last A + sgn d) d = A"
proof -
  define n where "n = length A - 2"
  have n: "length A = Suc (Suc n)" using len by (simp add: n_def)
  have ne: "A \<noteq> []" using n by auto
  have diffs: "exact_diffs A = replicate (Suc n) d" using exact_diffs_ap[OF ap] n by simp
  have uniq: "np_unique (exact_diffs A) = [d]" unfolding diffs by (rule np_unique_replicate)
  have mono: "list_all (\<lambda>d. d > 0) (exact_diffs A) \<or> list_all (\<lambda>d. d < 0) (exact_diffs A)"
    using d by (auto simp: diffs list_all_iff)
  have hd: "hd A = A ! 0" using ne by (simp add: hd_conv_nth)
  have apE: "A ! i = A ! 0 + int i * d" if "i < length A" for i
    using ap[rule_format, OF that] .
  have "A ! Suc n = A ! 0 + int (Suc n) * d" by (rule apE) (simp add: n)
  then have last: "last A = A ! 0 + int (Suc n) * d"
    using n ne by (simp add: last_conv_nth)
  show "ensure_slice_exact A =
           Inr (Slice (Some (A ! 0)) (Some (last A + sgn d)) (Some d))"
    using mono n d ne by (simp add: uniq hd Let_def sgn_if)
  have alen: "arange_len (A ! 0) (last A + sgn d) d = length A"
    unfolding last n using arange_len_ap[OF d, of "A ! 0" "Suc n"] by simp
  show "arange (A ! 0) (last A + sgn d) d = A"
  proof (rule nth_equalityI)
    show "length (arange (A ! 0) (last A + sgn d) d) = length A" using alen by simp
  next
    fix i assume "i < length (arange (A ! 0) (last A + sgn d) d)"
    then have i: "i < length A" using alen by simp
    moreover from i have "A ! i = A ! 0 + int i * d" by (rule apE)
    ultimately show "arange (A ! 0) (last A + sgn d) d ! i = A ! i"
      using alen by (simp add: nth_arange)
  qed
qed

lemma is_ap_D:
  assumes "is_ap xs" "length xs \<ge> 2"
  shows "xs ! 1 - xs ! 0 \<noteq> 0" "\<forall>i<length xs. xs ! i = xs ! 0 + int i * (xs ! 1 - xs ! 0)"
proof -
  from assms have a: "xs ! 1 \<noteq> xs ! 0"
    and b: "list_all (\<lambda>i. xs ! i = xs ! 0 + int i * (xs ! 1 - xs ! 0)) [0..<length xs]"
    unfolding is_ap_def by linarith+
  from a show "xs ! 1 - xs ! 0 \<noteq> 0" by simp
  from b have "\<forall>i\<in>set [0..<length xs]. xs ! i = xs ! 0 + int i * (xs ! 1 - xs ! 0)"
    unfolding list_all_iff .
  then show "\<forall>i<length xs. xs ! i = xs ! 0 + int i * (xs ! 1 - xs ! 0)"
    by (intro allI impI) (erule bspec, simp)
qed

lemma is_ap_I:
  assumes "length xs \<ge> 2" "d \<noteq> 0" "\<And>i. i < length xs \<Longrightarrow> xs ! i = xs ! 0 + int i * d"
  shows "is_ap xs"
proof -
  have "xs ! 1 = xs ! 0 + int 1 * d" using assms(1) by (intro assms(3)) simp
  then have d: "xs ! 1 - xs ! 0 = d" by simp
  have "list_all (\<lambda>i. xs ! i = xs ! 0 + int i * d) [0..<length xs]"
    unfolding list_all_iff using assms(3) by (intro ballI) simp
  moreover have "xs \<noteq> []" using assms(1) by auto
  moreover have "xs ! 1 \<noteq> xs ! 0" using d assms(2) by auto
  ultimately show ?thesis
    unfolding is_ap_def d by blast
qed

lemma const_diffs_imp_ap:
  assumes "\<And>i. Suc i < length xs \<Longrightarrow> xs ! Suc i - xs ! i = d"
  shows "i < length xs \<Longrightarrow> xs ! i = xs ! 0 + int i * d"
proof (induction i)
  case 0
  then show ?case by simp
next
  case (Suc i)
  then have "xs ! i = xs ! 0 + int i * d" by simp
  moreover have "xs ! Suc i - xs ! i = d" using Suc.prems by (rule assms)
  ultimately show ?case by (simp add: algebra_simps)
qed

lemma ensure_slice_exact_Inr_ap:
  assumes "ensure_slice_exact xs = Inr r" "length xs \<ge> 2"
  shows "is_ap xs"
proof -
  let ?ds = "exact_diffs xs"
  from assms have mono: "list_all (\<lambda>d. d > 0) ?ds \<or> list_all (\<lambda>d. d < 0) ?ds"
    and ul: "length (np_unique ?ds) \<le> 1"
    by (auto simp: Let_def split: if_splits)
  have dne: "?ds \<noteq> []" using assms(2) by (auto simp: exact_diffs_def simp flip: length_0_conv)
  have su: "set (np_unique ?ds) = set ?ds" by (simp add: np_unique_def)
  then have "np_unique ?ds \<noteq> []" using dne by auto
  with ul obtain d where ud: "np_unique ?ds = [d]"
    by (cases "np_unique ?ds") auto
  then have sd: "set ?ds = {d}" using su by simp
  have dz: "d \<noteq> 0" using mono sd by (auto simp: list_all_iff)
  have step: "xs ! Suc i - xs ! i = d" if "Suc i < length xs" for i
  proof -
    from that have "i < length xs - 1" by simp
    then have "?ds ! i = xs ! Suc i - xs ! i" by (rule exact_diffs_nth)
    moreover have "?ds ! i \<in> set ?ds" using that by (intro nth_mem) simp
    ultimately show ?thesis using sd by simp
  qed
  show ?thesis
    by (rule is_ap_I[OF assms(2) dz]) (rule const_diffs_imp_ap[OF step])
qed


lemma wrap_id: "in_range k x \<Longrightarrow> wrap k x = x"
  by (cases k) (simp_all add: wrap_def in_range_def)

lemma wrap_intp: "- (2 ^ 63) \<le> x \<Longrightarrow> x < 2 ^ 63 \<Longrightarrow> wrap Int64 x = x"
  by (simp add: wrap_def)

lemma intp_ordinals_nth:
  "intp_ordinals xs \<Longrightarrow> i < length xs \<Longrightarrow> 0 \<le> xs ! i \<and> xs ! i < 2 ^ 63 - 1"
  by (simp add: intp_ordinals_def list_all_length)

lemma intp_ordinals_mem:
  "intp_ordinals xs \<Longrightarrow> x \<in> set xs \<Longrightarrow> 0 \<le> x \<and> x < 2 ^ 63 - 1"
  by (simp add: intp_ordinals_def list_all_iff)

lemma diffs_of_intp:
  assumes "intp_ordinals xs"
  shows "diffs_of Int64 xs = exact_diffs xs"
proof -
  have "wrap Int64 (x - y) = x - y" if "(x, y) \<in> set (zip (tl xs) (butlast xs))" for x y
  proof -
    from that have "x \<in> set (tl xs)" "y \<in> set (butlast xs)" by (auto dest: set_zip_leftD set_zip_rightD)
    then have "x \<in> set xs" "y \<in> set xs"
      by (auto dest: list.set_sel(2)[rotated] in_set_butlastD)
    from intp_ordinals_mem[OF assms this(1)] intp_ordinals_mem[OF assms this(2)]
    show ?thesis by (intro wrap_intp) simp_all
  qed
  then show ?thesis by (auto simp: diffs_of_def exact_diffs_def)
qed

lemma ensure_slice_array_intp:
  assumes "intp_ordinals xs"
  shows "ensure_slice_array (Array1 (Integer Int64) xs) = ensure_slice_exact xs"
proof (cases "xs = []")
  case True
  then show ?thesis by simp
next
  case False
  then have "last xs \<in> set xs" by simp
  from intp_ordinals_mem[OF assms this]
  have "wrap Int64 (last xs + 1) = last xs + 1" "wrap Int64 (last xs - 1) = last xs - 1"
    by (simp_all add: wrap_intp)
  then show ?thesis by (simp add: diffs_of_intp[OF assms] Let_def)
qed

lemma diffs_of_wrap: "diffs_of k a = map (wrap k) (exact_diffs a)"
  by (simp add: diffs_of_def exact_diffs_def case_prod_unfold)

lemma ensure_slice_array_ap:
  assumes len: "length A \<ge> 2" and d: "d \<noteq> 0"
    and ap: "\<forall>i<length A. A ! i = A ! 0 + int i * d"
    and step_ok: "in_range k d" and stop_ok: "in_range k (last A + sgn d)"
  shows "ensure_slice (OArray (Array1 (Integer k) A)) =
           Inr (Slice (Some (A ! 0)) (Some (last A + sgn d)) (Some d))
         \<and> slice_enum (Slice (Some (A ! 0)) (Some (last A + sgn d)) (Some d)) = A"
proof -
  define n where "n = length A - 2"
  have n: "length A = Suc (Suc n)" using len by (simp add: n_def)
  have ne: "A \<noteq> []" using n by auto
  have "diffs_of k A = map (wrap k) (replicate (Suc n) d)"
    unfolding diffs_of_wrap using exact_diffs_ap[OF ap] n by simp
  then have diffs: "diffs_of k A = replicate (Suc n) d"
    by (simp add: wrap_id[OF step_ok])
  have uniq: "np_unique (diffs_of k A) = [d]" unfolding diffs by (rule np_unique_replicate)
  have mono: "list_all (\<lambda>d. d > 0) (diffs_of k A) \<or> list_all (\<lambda>d. d < 0) (diffs_of k A)"
    using d by (auto simp: diffs list_all_iff)
  have hd: "hd A = A ! 0" using ne by (simp add: hd_conv_nth)
  have sg: "(if d > 0 then 1 else - 1) = sgn d" using d by (simp add: sgn_if)
  have stop: "wrap k (last A + (if d > 0 then 1 else - 1)) = last A + sgn d"
    unfolding sg by (rule wrap_id[OF stop_ok])
  have "ensure_slice (OArray (Array1 (Integer k) A)) =
           Inr (Slice (Some (A ! 0)) (Some (last A + sgn d)) (Some d))"
    using mono n ne by (simp add: uniq hd Let_def stop)
  with ensure_slice_exact_ap(2) [OF len d ap] show ?thesis
    by (simp add: slice_enum_def del: ensure_slice.simps)
qed

text \<open>
  Claim C2 does not hold of the code. The array \<open>[3, 2, 1]\<close> of dtype \<^verbatim>\<open>uint8\<close> is an
  arithmetic progression of step \<open>-1\<close>, for which the claim gives \<^verbatim>\<open>slice(3, 0, -1)\<close>, the
  slice that enumerates \<open>3, 2, 1\<close>. \<^verbatim>\<open>ensure_slice\<close> takes the differences in \<^verbatim>\<open>uint8\<close>,
  where \<open>-1\<close> wraps to \<open>255\<close>, and returns \<^verbatim>\<open>slice(3, 2, 255)\<close>, which enumerates nothing.
  For the array \<open>[126, 127]\<close> of dtype \<^verbatim>\<open>int8\<close>, of step \<open>1\<close>, the stop \<^verbatim>\<open>a[-1] + 1\<close> wraps
  to \<open>-128\<close> and the slice returned enumerates nothing either.
\<close>

theorem ensure_slice_array_dtype_wrap:
  "ensure_slice (OArray (Array1 (Integer UInt8) [3, 2, 1])) =
     Inr (Slice (Some 3) (Some 2) (Some 255))
   \<and> slice_enum (Slice (Some 3) (Some 2) (Some 255)) = []
   \<and> slice_enum (Slice (Some 3) (Some 0) (Some (- 1))) = [3, 2, 1]
   \<and> ensure_slice (OArray (Array1 (Integer Int8) [126, 127])) =
       Inr (Slice (Some 126) (Some (- 128)) (Some 1))
   \<and> slice_enum (Slice (Some 126) (Some (- 128)) (Some 1)) = []"
  by (intro conjI; code_simp)

text \<open>
  Claim C4. The index normalizer rewrites a slice with negative step and explicit start
  and stop, \<^verbatim>\<open>slice(start, stop, step)\<close>, to \<^verbatim>\<open>slice(stop + 1, start + 1, step)\<close>, keeping the
  step; a slice whose start and stop are both open passes through unchanged; a tuple is
  normalized element by element; scalars (and the ellipsis) pass through unchanged.
\<close>

theorem normalize_index_cases:
  "(k < 0 \<longrightarrow>
      normalize_index (ISlice (Slice (Some a) (Some b) (Some k))) =
        ISlice (Slice (Some (b + 1)) (Some (a + 1)) (Some k)))
   \<and> normalize_index (ISlice (Slice None None st)) = ISlice (Slice None None st)
   \<and> normalize_index (ITuple t) = ITuple (map normalize_index t)
   \<and> normalize_index (IInt i) = IInt i
   \<and> normalize_index IEllipsis = IEllipsis"
  by (auto simp: normalize_slice_def split: option.splits)

theorem normalize_index_cases_witness:
  "normalize_index (ISlice (Slice (Some 9) (Some 3) (Some (- 2)))) =
     ISlice (Slice (Some 4) (Some 10) (Some (- 2)))
   \<and> normalize_index (ISlice (Slice None None (Some (- 1)))) =
       ISlice (Slice None None (Some (- 1)))
   \<and> normalize_index (ITuple [IInt 5, ISlice (Slice (Some 9) (Some 3) (Some (- 2)))]) =
       ITuple (map normalize_index [IInt 5, ISlice (Slice (Some 9) (Some 3) (Some (- 2)))])
   \<and> normalize_index (IInt 5) = IInt 5
   \<and> normalize_index IEllipsis = IEllipsis"
  using normalize_index_cases [of "- 2" 9 3 "Some (- 1)"
      "[IInt 5, ISlice (Slice (Some 9) (Some 3) (Some (- 2)))]" 5]
  by simp


text \<open>
  Claim C8, as the code has it. For a Python integer \<open>i\<close>, and for a numpy integer scalar
  \<open>i\<close> below the maximum of its dtype, \<^verbatim>\<open>ensure_slice(i)\<close> returns \<^verbatim>\<open>slice(i, i + 1)\<close>, whose
  step is left unset (\<^verbatim>\<open>None\<close>), not \<^verbatim>\<open>slice(i, i + 1, 1)\<close>; both denote the single integer
  \<open>i\<close>. A 0-dimensional or length-1 integer array gives the result of its element taken
  as a Python integer (\<^verbatim>\<open>a.item()\<close>).
\<close>

theorem ensure_slice_scalar:
  "ensure_slice (OInt i) = Inr (Slice (Some i) (Some (i + 1)) None)
   \<and> (in_range k i \<and> i < dtype_max k \<longrightarrow>
        ensure_slice (ONpInteger k i) = Inr (Slice (Some i) (Some (i + 1)) None))
   \<and> slice_enum (Slice (Some i) (Some (i + 1)) None) = [i]
   \<and> slice_enum (Slice (Some i) (Some (i + 1)) (Some 1)) = [i]
   \<and> ensure_slice (OArray (Array0 (Integer k) i)) = ensure_slice (OInt i)
   \<and> ensure_slice (OArray (Array1 (Integer k) [i])) = ensure_slice (OInt i)"
proof -
  have "wrap k (i + 1) = i + 1" if "in_range k i" "i < dtype_max k"
    using that by (intro wrap_id) (simp add: in_range_def)
  then show ?thesis
    by (simp add: ensure_slice_int_def ensure_slice_np_integer_def slice_enum_def arange_def
        arange_len_def)
qed

theorem ensure_slice_scalar_witness:
  "ensure_slice (OInt 126) = Inr (Slice (Some 126) (Some 127) None)
   \<and> ensure_slice (ONpInteger Int8 126) = Inr (Slice (Some 126) (Some 127) None)
   \<and> slice_enum (Slice (Some 126) (Some 127) None) = [126]
   \<and> slice_enum (Slice (Some 126) (Some 127) (Some 1)) = [126]
   \<and> ensure_slice (OArray (Array0 (Integer Int8) 126)) = ensure_slice (OInt 126)
   \<and> ensure_slice (OArray (Array1 (Integer Int8) [126])) = ensure_slice (OInt 126)"
  using ensure_slice_scalar [of 126 Int8] by (simp add: in_range_def)

text \<open>
  The claim as stated fails: the slice returned for the integer 3 is not
  \<^verbatim>\<open>slice(3, 4, 1)\<close>; and for the numpy scalar 127 of dtype \<^verbatim>\<open>int8\<close> the stop \<^verbatim>\<open>i + 1\<close>
  wraps to \<open>-128\<close>, where the 0-dimensional array holding it gives \<^verbatim>\<open>slice(127, 128)\<close>.
\<close>

theorem ensure_slice_scalar_counterexample:
  "ensure_slice (OInt 3) \<noteq> Inr (Slice (Some 3) (Some 4) (Some 1))
   \<and> ensure_slice (ONpInteger Int8 127) = Inr (Slice (Some 127) (Some (- 128)) None)
   \<and> ensure_slice (OArray (Array0 (Integer Int8) 127)) =
       Inr (Slice (Some 127) (Some 128) None)"
  by (intro conjI; code_simp)

section \<open>Properties of the label indexer\<close>

lemma np_unique_length_iff: "length (np_unique ls) = length ls \<longleftrightarrow> distinct ls"
  by (simp add: np_unique_def length_remdups_eq)

lemma np_min_eq: "ls \<noteq> [] \<Longrightarrow> np_min ls = Inr (Min (set ls))"
  by (cases ls) (simp_all add: np_min_def Min.set_eq_fold del: set_simps)

lemma np_max_eq: "ls \<noteq> [] \<Longrightarrow> np_max ls = Inr (Max (set ls))"
  by (cases ls) (simp_all add: np_max_def Max.set_eq_fold del: set_simps)

lemma LabelIndexer_init_Inr_iff:
  "LabelIndexer_init dt ls = Inr ix \<longleftrightarrow>
     (\<exists>k. dt = Integer k \<and> distinct ls \<and> ls \<noteq> [] \<and>
       ix = \<lparr>labels = ls, labels_dtype = k, min_label = Min (set ls),
              max_label = wrap k (Max (set ls) + 1), sorter = argsort ls\<rparr>)"
proof (cases "ls = []")
  case True
  then show ?thesis
    by (simp add: LabelIndexer_init_def np_min_def np_unique_def split: dtype.splits)
next
  case False
  then show ?thesis
    by (auto simp: LabelIndexer_init_def np_min_eq np_max_eq np_unique_length_iff
        split: dtype.splits)
qed

lemma argsort_props:
  "length (argsort ls) = length ls"
  "set (argsort ls) = {0..<length ls}"
  "distinct (argsort ls)"
  "sorted (map (\<lambda>i. ls ! i) (argsort ls))"
proof -
  let ?zs = "sort_key fst (zip ls [0..<length ls])"
  show "length (argsort ls) = length ls" by (simp add: argsort_def)
  have set_zs: "set ?zs = set (zip ls [0..<length ls])" by simp
  have msz: "map snd (zip ls [0..<length ls]) = [0..<length ls]"
    by (simp add: map_snd_zip)
  have "set (map snd ?zs) = snd ` set (zip ls [0..<length ls])"
    by (simp only: set_map set_zs)
  also have "\<dots> = set (map snd (zip ls [0..<length ls]))" by (simp only: set_map)
  also have "\<dots> = {0..<length ls}" by (simp only: msz set_upt)
  finally show "set (argsort ls) = {0..<length ls}" by (simp only: argsort_def)
  have "distinct (map snd (zip ls [0..<length ls]))" by (simp only: msz distinct_upt)
  then have "distinct (zip ls [0..<length ls]) \<and> inj_on snd (set (zip ls [0..<length ls]))"
    by (simp only: distinct_map)
  then have "distinct ?zs \<and> inj_on snd (set ?zs)"
    by (simp only: distinct_sort set_zs)
  then have "distinct (map snd ?zs)" by (simp only: distinct_map)
  then show "distinct (argsort ls)" by (simp add: argsort_def)
  have "\<forall>p \<in> set ?zs. ls ! snd p = fst p"
    unfolding set_zs by (auto simp: set_zip)
  then have "map (\<lambda>i. ls ! i) (map snd ?zs) = map fst ?zs"
    by (simp add: map_eq_conv)
  moreover have "sorted (map fst ?zs)" by (rule sorted_sort_key)
  ultimately show "sorted (map (\<lambda>i. ls ! i) (argsort ls))" by (simp only: argsort_def)
qed

lemma flatnonzero_eq_distinct:
  assumes "distinct ls" "p < length ls"
  shows "flatnonzero_eq (ls ! p) ls = [p]"
proof -
  let ?f = "filter (\<lambda>i. ls ! i = ls ! p) [0..<length ls]"
  have "set ?f = {p}" using assms by (auto simp: nth_eq_iff_index_eq)
  moreover have "sorted ?f" by (rule sorted_wrt_filter) simp
  moreover have "distinct ?f" by simp
  ultimately have "?f = [p]"
    using sorted_distinct_set_unique[of ?f "[p]"] by simp
  then show ?thesis by (simp add: flatnonzero_eq_def)
qed

lemma flatnonzero_eq_absent: "v \<notin> set ls \<Longrightarrow> flatnonzero_eq v ls = []"
  by (auto simp: flatnonzero_eq_def filter_empty_conv)

lemma get_one_present:
  assumes "distinct ls" "p < length ls" "labels ix = ls"
  shows "get_one ix (ls ! p) = Inr p"
  using assms by (simp add: get_one_def flatnonzero_eq_distinct)

lemma get_one_absent:
  assumes "v \<notin> set ls" "labels ix = ls"
  shows "get_one ix v = Inl ValueError_not_in_labels"
  using assms by (simp add: get_one_def flatnonzero_eq_absent)


text \<open>
  Claim C5. For a label indexer built from a label array \<open>L\<close> (construction succeeds only
  for unique integer labels) and every integer \<open>v\<close>: when \<open>v\<close> occurs in \<open>L\<close>, the scalar
  lookup (in both versions of the class) returns the unique 0-based position \<open>p\<close> with
  \<open>L[p] = v\<close>; when it does not occur, the lookup fails with the label-not-found error.
\<close>

theorem label_lookup_scalar:
  assumes "LabelIndexer_init dt L = Inr ix"
  shows "(v \<in> set L \<longrightarrow>
           (\<exists>p. p < length L \<and> L ! p = v \<and> (\<forall>q<length L. L ! q = v \<longrightarrow> q = p)
              \<and> utils_getitem ix (AInt v) = Inr (AInt (int p))
              \<and> indexables_getitem ix (AInt v) = Inr (AInt (int p))))
       \<and> (v \<notin> set L \<longrightarrow>
             utils_getitem ix (AInt v) = Inl ValueError_not_in_labels
           \<and> indexables_getitem ix (AInt v) = Inl ValueError_not_in_labels)"
proof -
  from assms have d: "distinct L" and lab: "labels ix = L"
    by (auto simp: LabelIndexer_init_Inr_iff)
  show ?thesis
  proof (intro conjI impI)
    assume "v \<in> set L"
    then obtain p where p: "p < length L" "L ! p = v" by (auto simp: in_set_conv_nth)
    have uniq: "\<forall>q<length L. L ! q = v \<longrightarrow> q = p"
      using d p by (auto simp: nth_eq_iff_index_eq)
    have "get_one ix v = Inr p" using get_one_present[OF d p(1) lab] p(2) by simp
    then have g: "utils_getitem ix (AInt v) = Inr (AInt (int p))"
        "indexables_getitem ix (AInt v) = Inr (AInt (int p))" by simp_all
    show "\<exists>p. p < length L \<and> L ! p = v \<and> (\<forall>q<length L. L ! q = v \<longrightarrow> q = p)
              \<and> utils_getitem ix (AInt v) = Inr (AInt (int p))
              \<and> indexables_getitem ix (AInt v) = Inr (AInt (int p))"
      by (rule exI[of _ p]) (intro conjI p uniq g)
  next
    assume "v \<notin> set L"
    then have "get_one ix v = Inl ValueError_not_in_labels" by (rule get_one_absent[OF _ lab])
    then show "utils_getitem ix (AInt v) = Inl ValueError_not_in_labels"
      and "indexables_getitem ix (AInt v) = Inl ValueError_not_in_labels" by simp_all
  qed
qed

theorem label_lookup_scalar_witness:
  "(\<exists>p. p < length [10, 20, 30 :: int] \<and> [10, 20, 30 :: int] ! p = 20
        \<and> (\<forall>q<length [10, 20, 30 :: int]. [10, 20, 30 :: int] ! q = 20 \<longrightarrow> q = p)
        \<and> utils_getitem \<lparr>labels = [10, 20, 30], labels_dtype = Int64,
                           min_label = 10, max_label = 31, sorter = [0, 1, 2]\<rparr> (AInt 20) = Inr (AInt (int p))
        \<and> indexables_getitem \<lparr>labels = [10, 20, 30], labels_dtype = Int64,
                           min_label = 10, max_label = 31, sorter = [0, 1, 2]\<rparr> (AInt 20) = Inr (AInt (int p)))
   \<and> utils_getitem \<lparr>labels = [10, 20, 30], labels_dtype = Int64,
                           min_label = 10, max_label = 31, sorter = [0, 1, 2]\<rparr> (AInt 25) = Inl ValueError_not_in_labels
   \<and> indexables_getitem \<lparr>labels = [10, 20, 30], labels_dtype = Int64,
                           min_label = 10, max_label = 31, sorter = [0, 1, 2]\<rparr> (AInt 25) = Inl ValueError_not_in_labels"
proof -
  have i: "LabelIndexer_init (Integer Int64) [10, 20, 30] =
      Inr \<lparr>labels = [10, 20, 30], labels_dtype = Int64, min_label = 10, max_label = 31,
           sorter = [0, 1, 2]\<rparr>"
    by code_simp
  have a: "20 \<in> set [10, 20, 30 :: int]" by simp
  have b: "25 \<notin> set [10, 20, 30 :: int]" by simp
  note t = label_lookup_scalar [OF i]
  from t [of 20, THEN conjunct1, rule_format, OF a]
       t [of 25, THEN conjunct2, rule_format, OF b]
  show ?thesis by (rule conjI)
qed

text \<open>
  Claim C7, as the code has it. Construction of a label indexer fails for every label
  array of non-integer dtype and for every integer array with a repeated value. For every
  non-empty array of unique integers whose maximum plus one is representable in the dtype
  of the labels, it succeeds and stores the minimum label, the exclusive maximum label
  (maximum plus one) and the permutation that sorts the labels.
\<close>

theorem LabelIndexer_init_cases:
  "LabelIndexer_init OtherDType L = Inl ValueError_labels_not_integers
   \<and> (\<not> distinct L \<longrightarrow>
        LabelIndexer_init (Integer k) L = Inl ValueError_duplicate_labels)
   \<and> (distinct L \<and> L \<noteq> [] \<and> in_range k (Max (set L) + 1) \<longrightarrow>
        (\<exists>ix. LabelIndexer_init (Integer k) L = Inr ix
           \<and> labels ix = L
           \<and> min_label ix = Min (set L)
           \<and> max_label ix = Max (set L) + 1
           \<and> length (sorter ix) = length L
           \<and> distinct (sorter ix)
           \<and> set (sorter ix) = {0..<length L}
           \<and> sorted (map (\<lambda>i. L ! i) (sorter ix))))"
proof (intro conjI impI)
  show "LabelIndexer_init OtherDType L = Inl ValueError_labels_not_integers"
    by (simp add: LabelIndexer_init_def)
next
  assume "\<not> distinct L"
  then show "LabelIndexer_init (Integer k) L = Inl ValueError_duplicate_labels"
    by (simp add: LabelIndexer_init_def np_unique_length_iff)
next
  assume a: "distinct L \<and> L \<noteq> [] \<and> in_range k (Max (set L) + 1)"
  let ?ix = "\<lparr>labels = L, labels_dtype = k, min_label = Min (set L),
            max_label = wrap k (Max (set L) + 1), sorter = argsort L\<rparr>"
  have w: "wrap k (Max (set L) + 1) = Max (set L) + 1" using a by (intro wrap_id) simp
  have "LabelIndexer_init (Integer k) L = Inr ?ix"
    using a by (simp add: LabelIndexer_init_Inr_iff)
  then show "\<exists>ix. LabelIndexer_init (Integer k) L = Inr ix
           \<and> labels ix = L
           \<and> min_label ix = Min (set L)
           \<and> max_label ix = Max (set L) + 1
           \<and> length (sorter ix) = length L
           \<and> distinct (sorter ix)
           \<and> set (sorter ix) = {0..<length L}
           \<and> sorted (map (\<lambda>i. L ! i) (sorter ix))"
    by (intro exI[of _ ?ix]) (simp add: argsort_props w)
qed

theorem LabelIndexer_init_cases_witness:
  "LabelIndexer_init OtherDType [1, 2] = Inl ValueError_labels_not_integers
   \<and> LabelIndexer_init (Integer Int8) [7, 7] = Inl ValueError_duplicate_labels
   \<and> (\<exists>ix. LabelIndexer_init (Integer Int8) [30, 10, 20] = Inr ix
           \<and> labels ix = [30, 10, 20]
           \<and> min_label ix = Min (set [30, 10, 20])
           \<and> max_label ix = Max (set [30, 10, 20]) + 1
           \<and> length (sorter ix) = length [30, 10, 20 :: int]
           \<and> distinct (sorter ix)
           \<and> set (sorter ix) = {0..<length [30, 10, 20 :: int]}
           \<and> sorted (map (\<lambda>i. [30, 10, 20 :: int] ! i) (sorter ix)))"
proof -
  have b: "\<not> distinct [7, 7 :: int]" by simp
  have c: "distinct [30, 10, 20 :: int] \<and> [30, 10, 20 :: int] \<noteq> []
      \<and> in_range Int8 (Max (set [30, 10, 20]) + 1)" by (simp add: in_range_def)
  from LabelIndexer_init_cases [of "[1, 2]" Int8, THEN conjunct1]
    LabelIndexer_init_cases [of "[7, 7]" Int8, THEN conjunct2, THEN conjunct1,
      rule_format, OF b]
    LabelIndexer_init_cases [of "[30, 10, 20]" Int8, THEN conjunct2, THEN conjunct2,
      rule_format, OF c]
  show ?thesis by (intro conjI)
qed

text \<open>
  The claim as stated fails on the empty integer array: it has no repeated value, yet
  construction fails, in \<^verbatim>\<open>labels.min()\<close>. And for the labels \<open>[125, 126, 127]\<close> of dtype
  \<^verbatim>\<open>int8\<close> construction succeeds, but \<^verbatim>\<open>labels.max() + 1\<close> wraps and the value stored as
  the exclusive maximum label is \<open>-128\<close>.
\<close>

theorem LabelIndexer_init_counterexample:
  "distinct ([] :: int list)
   \<and> LabelIndexer_init (Integer Int64) [] = Inl ValueError_zero_size_reduction
   \<and> distinct [125, 126, 127 :: int]
   \<and> LabelIndexer_init (Integer Int8) [125, 126, 127] =
       Inr \<lparr>labels = [125, 126, 127], labels_dtype = Int8, min_label = 125,
            max_label = - 128, sorter = [0, 1, 2]\<rparr>"
  by (intro conjI; code_simp)

text \<open>
  Claim C3. Over the labels \<open>[10, 20, 30, 40, 50]\<close> the range lookup for
  \<^verbatim>\<open>slice(15, 45)\<close> resolves the ordinals \<open>[1, 2, 3]\<close> and returns \<^verbatim>\<open>slice(1, 4, 1)\<close>; over
  the labels \<open>[10, 20, 40, 50]\<close>, with a gap at 30, the range lookup for \<^verbatim>\<open>slice(10, 51)\<close>
  resolves the ordinals \<open>[0, 1, 2, 3]\<close> and returns the contiguous \<^verbatim>\<open>slice(0, 4, 1)\<close>: the
  candidate labels that are not in the label space are filtered out and cause no
  failure. Both versions of the class agree.
\<close>

theorem label_range_scenarios:
  "LabelIndexer_init (Integer Int64) [10, 20, 30, 40, 50] =
     Inr \<lparr>labels = [10, 20, 30, 40, 50], labels_dtype = Int64, min_label = 10,
          max_label = 51, sorter = [0, 1, 2, 3, 4]\<rparr>
   \<and> label_slice_to_indices \<lparr>labels = [10, 20, 30, 40, 50], labels_dtype = Int64,
          min_label = 10, max_label = 51, sorter = [0, 1, 2, 3, 4]\<rparr>
        (Slice (Some 15) (Some 45) None) = Inr [1, 2, 3]
   \<and> get_slice_indices \<lparr>labels = [10, 20, 30, 40, 50], labels_dtype = Int64,
          min_label = 10, max_label = 51, sorter = [0, 1, 2, 3, 4]\<rparr>
        (Slice (Some 15) (Some 45) None) = Inr [1, 2, 3]
   \<and> utils_getitem \<lparr>labels = [10, 20, 30, 40, 50], labels_dtype = Int64,
          min_label = 10, max_label = 51, sorter = [0, 1, 2, 3, 4]\<rparr>
        (ASlice (Slice (Some 15) (Some 45) None)) =
       Inr (ASlice (Slice (Some 1) (Some 4) (Some 1)))
   \<and> indexables_getitem \<lparr>labels = [10, 20, 30, 40, 50], labels_dtype = Int64,
          min_label = 10, max_label = 51, sorter = [0, 1, 2, 3, 4]\<rparr>
        (ASlice (Slice (Some 15) (Some 45) None)) =
       Inr (ASlice (Slice (Some 1) (Some 4) (Some 1)))
   \<and> LabelIndexer_init (Integer Int64) [10, 20, 40, 50] =
       Inr \<lparr>labels = [10, 20, 40, 50], labels_dtype = Int64, min_label = 10,
            max_label = 51, sorter = [0, 1, 2, 3]\<rparr>
   \<and> label_slice_to_indices \<lparr>labels = [10, 20, 40, 50], labels_dtype = Int64,
          min_label = 10, max_label = 51, sorter = [0, 1, 2, 3]\<rparr>
        (Slice (Some 10) (Some 51) None) = Inr [0, 1, 2, 3]
   \<and> get_slice_indices \<lparr>labels = [10, 20, 40, 50], labels_dtype = Int64,
          min_label = 10, max_label = 51, sorter = [0, 1, 2, 3]\<rparr>
        (Slice (Some 10) (Some 51) None) = Inr [0, 1, 2, 3]
   \<and> utils_getitem \<lparr>labels = [10, 20, 40, 50], labels_dtype = Int64,
          min_label = 10, max_label = 51, sorter = [0, 1, 2, 3]\<rparr>
        (ASlice (Slice (Some 10) (Some 51) None)) =
       Inr (ASlice (Slice (Some 0) (Some 4) (Some 1)))
   \<and> indexables_getitem \<lparr>labels = [10, 20, 40, 50], labels_dtype = Int64,
          min_label = 10, max_label = 51, sorter = [0, 1, 2, 3]\<rparr>
        (ASlice (Slice (Some 10) (Some 51) None)) =
       Inr (ASlice (Slice (Some 0) (Some 4) (Some 1)))"
  by (intro conjI; code_simp)

section \<open>Outcomes of the range lookup\<close>

lemma indices_to_slice_exact_Nil: "indices_to_slice_exact [] = Inl ValueError_no_overlap"
  by (simp add: indices_to_slice_exact_def)

lemma arange_single: "arange x (x + 1) 1 = [x]"
  by (simp add: arange_def arange_len_def)

lemma indices_to_slice_exact_single:
  "indices_to_slice_exact [x] = Inr (Slice (Some x) (Some (x + 1)) (Some 1))"
  by (simp add: indices_to_slice_exact_def Let_def arange_single ne_any_def)

lemma list_ex_zip_same: "\<not> list_ex (\<lambda>(x, y). x \<noteq> y) (zip xs xs)"
  by (induction xs) auto

lemma ne_any_same: "ne_any xs xs = Inr False"
  by (simp add: ne_any_def list_ex_zip_same)

lemma indices_to_slice_exact_ap:
  assumes "length xs \<ge> 2" "is_ap xs"
  shows "indices_to_slice_exact xs =
      Inr (Slice (Some (xs ! 0)) (Some (last xs + sgn (xs ! 1 - xs ! 0))) (Some (xs ! 1 - xs ! 0)))"
proof -
  define d where "d = xs ! 1 - xs ! 0"
  note D = is_ap_D[OF assms(2,1), folded d_def]
  have ar: "arange (xs ! 0) (last xs + sgn d) d = xs"
    by (rule ensure_slice_exact_ap(2)[OF assms(1) D])
  have ne: "xs \<noteq> []" using assms(1) by auto
  have hd: "hd xs = xs ! 0" using ne by (simp add: hd_conv_nth)
  have sg: "(if d > 0 then 1 else - 1) = sgn d" using D(1) by (simp add: sgn_if)
  have l: "length xs > 1" using assms(1) by auto
  have st_eq: "(if length xs > 1 then xs ! 1 - xs ! 0 else 1) = d"
    using l by (simp add: d_def)
  have l0: "(length xs = 0) = False" using ne by simp
  have "indices_to_slice_exact xs = Inr (Slice (Some (xs ! 0)) (Some (last xs + sgn d)) (Some d))"
    unfolding indices_to_slice_exact_def Let_def st_eq sg l0 hd ar ne_any_same
    using D(1) by simp
  then show ?thesis by (simp only: d_def)
qed

lemma list_ex_zip_False_eq:
  "length xs = length ys \<Longrightarrow> \<not> list_ex (\<lambda>(x, y). x \<noteq> y) (zip xs ys) \<Longrightarrow> xs = ys"
  by (induction xs ys rule: list_induct2) auto

lemma indices_to_slice_exact_Inr_ap:
  assumes "indices_to_slice_exact xs = Inr r" "length xs \<ge> 2"
  shows "is_ap xs"
proof -
  define st where "st = xs ! 1 - hd xs"
  define b where "b = last xs + (if st > 0 then 1 else - 1)"
  have ne: "xs \<noteq> []" using assms(2) by auto
  have hd: "hd xs = xs ! 0" using ne by (simp add: hd_conv_nth)
  have l: "length xs > 1" "length xs \<noteq> 1" using assms(2) by auto
  have st_eq: "(if length xs > 1 then xs ! 1 - hd xs else 1) = st"
    using l by (simp add: st_def)
  have l0: "(length xs = 0) = False" using ne by simp
  have e: "(if st = 0 then Inl Numpy_arange_zero_step
       else case ne_any (arange (hd xs) b st) xs of
             Inl e \<Rightarrow> Inl e
           | Inr True \<Rightarrow> Inl ValueError_not_a_slice
           | Inr False \<Rightarrow> Inr (Slice (Some (hd xs)) (Some b) (Some st))) = Inr r"
    using assms(1) unfolding indices_to_slice_exact_def Let_def st_eq l0 b_def[symmetric]
    by (simp only: if_False)
  then have st: "st \<noteq> 0" by (auto split: if_splits)
  with e have nf: "ne_any (arange (hd xs) b st) xs = Inr False"
    by (auto split: sum.splits bool.splits)
  have "arange (hd xs) b st = xs"
  proof (cases "length (arange (hd xs) b st) = length xs")
    case True
    then show ?thesis using nf by (auto simp: ne_any_def intro: list_ex_zip_False_eq)
  next
    case False
    with nf l(2) have one: "length (arange (hd xs) b st) = 1"
      and all: "\<not> list_ex (\<lambda>y. hd (arange (hd xs) b st) \<noteq> y) xs"
      by (auto simp: ne_any_def split: if_splits)
    from all have "\<forall>y\<in>set xs. y = hd (arange (hd xs) b st)" by (auto simp: list_ex_iff)
    moreover have "xs ! 0 \<in> set xs" "xs ! 1 \<in> set xs"
      using l(1) by (auto intro!: nth_mem)
    ultimately have "xs ! 1 = xs ! 0" by metis
    with st hd show ?thesis by (simp add: st_def)
  qed
  then have nth: "xs ! i = xs ! 0 + int i * st" if "i < length xs" for i
    using that by (metis hd length_arange nth_arange)
  show ?thesis
    by (rule is_ap_I[OF assms(2) st]) (rule nth)
qed

lemma indices_to_slice_exact_no_overlap_iff:
  "indices_to_slice_exact xs = Inl ValueError_no_overlap \<longleftrightarrow> xs = []"
  by (auto simp: indices_to_slice_exact_def Let_def ne_any_def split: if_splits sum.splits bool.splits)

lemma ensure_slice_exact_cases:
  assumes "length xs \<ge> 2" "\<not> is_ap xs"
  shows "ensure_slice_exact xs =
     (if list_all (\<lambda>d. d > 0) (exact_diffs xs) \<or> list_all (\<lambda>d. d < 0) (exact_diffs xs)
      then Inl MultiSliceError else Inl ValueError_non_monotonic)"
proof (cases "ensure_slice_exact xs")
  case (Inl e)
  then show ?thesis using assms(1)
    by (auto simp: Let_def split: if_splits)
next
  case (Inr r)
  then have "is_ap xs" using assms(1) by (rule ensure_slice_exact_Inr_ap)
  with assms(2) show ?thesis by simp
qed


lemma indices_to_slice_intp:
  assumes "intp_ordinals xs"
  shows "indices_to_slice xs = indices_to_slice_exact xs"
proof (cases "xs = []")
  case True
  then show ?thesis by (simp add: indices_to_slice_def indices_to_slice_exact_def)
next
  case False
  then have "last xs \<in> set xs" "hd xs \<in> set xs" by simp_all
  from intp_ordinals_mem[OF assms this(1)] intp_ordinals_mem[OF assms this(2)]
  have l: "0 \<le> last xs" "last xs < 2 ^ 63 - 1" and h: "0 \<le> hd xs" "hd xs < 2 ^ 63 - 1"
    by simp_all
  have w: "wrap Int64 (last xs + (if c then 1 else - 1)) = last xs + (if c then 1 else - 1)"
    for c using l by (intro wrap_intp) (simp_all split: if_splits)
  have s: "(if length xs > 1 then wrap Int64 (xs ! 1 - hd xs) else 1) =
           (if length xs > 1 then xs ! 1 - hd xs else 1)"
  proof (cases "length xs > 1")
    case True
    from intp_ordinals_nth[OF assms True] h
    have "wrap Int64 (xs ! 1 - hd xs) = xs ! 1 - hd xs" by (intro wrap_intp) simp_all
    then show ?thesis by simp
  next
    case False
    then show ?thesis by simp
  qed
  show ?thesis
    unfolding indices_to_slice_def indices_to_slice_exact_def Let_def s w ..
qed

lemma exact_diffs_pos_iff: "list_all (\<lambda>d. d > 0) (exact_diffs xs) \<longleftrightarrow> sorted_wrt (<) xs"
proof -
  have "list_all (\<lambda>d. d > 0) (exact_diffs xs) \<longleftrightarrow> (\<forall>i. Suc i < length xs \<longrightarrow> xs ! i < xs ! Suc i)"
    unfolding list_all_length by (auto simp: exact_diffs_nth)
  also have "\<dots> \<longleftrightarrow> sorted_wrt (<) xs"
    by (rule sorted_wrt_iff_nth_Suc_transp[symmetric]) (auto intro: transpI)
  finally show ?thesis .
qed

lemma exact_diffs_neg_iff: "list_all (\<lambda>d. d < 0) (exact_diffs xs) \<longleftrightarrow> sorted_wrt (>) xs"
proof -
  have "list_all (\<lambda>d. d < 0) (exact_diffs xs) \<longleftrightarrow> (\<forall>i. Suc i < length xs \<longrightarrow> xs ! i > xs ! Suc i)"
    unfolding list_all_length by (auto simp: exact_diffs_nth)
  also have "\<dots> \<longleftrightarrow> sorted_wrt (>) xs"
    by (rule sorted_wrt_iff_nth_Suc_transp[symmetric]) (auto intro: transpI)
  finally show ?thesis .
qed

lemma is_ap_single: "is_ap [x]"
  by (simp add: is_ap_def)

lemma length_ge2I: "xs \<noteq> [] \<Longrightarrow> length xs \<noteq> 1 \<Longrightarrow> length xs \<ge> 2"
  by (cases xs) (auto simp: Suc_le_eq)

lemma ensure_slice_exact_outcomes:
  "(ensure_slice_exact xs = Inl ValueError_empty_array \<longleftrightarrow> xs = [])
   \<and> (is_ap xs \<longrightarrow> (\<exists>r. ensure_slice_exact xs = Inr r \<and> slice_enum r = xs))
   \<and> (\<forall>r. ensure_slice_exact xs = Inr r \<longrightarrow> is_ap xs \<and> slice_enum r = xs)
   \<and> (xs \<noteq> [] \<and> \<not> is_ap xs \<longrightarrow>
        ensure_slice_exact xs =
          (if strictly_monotonic xs then Inl MultiSliceError else Inl ValueError_non_monotonic))"
proof (intro conjI impI allI)
  show "ensure_slice_exact xs = Inl ValueError_empty_array \<longleftrightarrow> xs = []"
    by (auto simp: Let_def split: if_splits)
next
  assume ap: "is_ap xs"
  show "\<exists>r. ensure_slice_exact xs = Inr r \<and> slice_enum r = xs"
  proof (cases "length xs = 1")
    case True
    then obtain v where v: "xs = [v]" by (cases xs) auto
    show ?thesis unfolding v
      by (simp add: ensure_slice_int_def slice_enum_def arange_single)
  next
    case False
    with ap have len: "length xs \<ge> 2" by (intro length_ge2I) (auto simp: is_ap_def)
    note D = is_ap_D[OF ap len]
    show ?thesis unfolding ensure_slice_exact_ap(1)[OF len D]
      using ensure_slice_exact_ap(2)[OF len D] by (simp add: slice_enum_def)
  qed
next
  fix r assume r: "ensure_slice_exact xs = Inr r"
  then have ne: "xs \<noteq> []" by auto
  show "is_ap xs"
  proof (cases "length xs = 1")
    case True
    then obtain v where v: "xs = [v]" by (cases xs) auto
    show ?thesis unfolding v by (rule is_ap_single)
  next
    case False
    with ne have len: "length xs \<ge> 2" by (intro length_ge2I)
    from r len show ?thesis by (rule ensure_slice_exact_Inr_ap)
  qed
  then have ap: "is_ap xs" .
  show "slice_enum r = xs"
  proof (cases "length xs = 1")
    case True
    then obtain v where v: "xs = [v]" by (cases xs) auto
    from r show ?thesis unfolding v
      by (auto simp: ensure_slice_int_def slice_enum_def arange_single)
  next
    case False
    with ne have len: "length xs \<ge> 2" by (intro length_ge2I)
    note D = is_ap_D[OF ap len]
    from r show ?thesis unfolding ensure_slice_exact_ap(1)[OF len D]
      using ensure_slice_exact_ap(2)[OF len D] by (auto simp: slice_enum_def)
  qed
next
  assume a: "xs \<noteq> [] \<and> \<not> is_ap xs"
  then have "length xs \<noteq> 1" by (auto simp: is_ap_def)
  with a have len: "length xs \<ge> 2" by (intro length_ge2I) simp_all
  from a have nap: "\<not> is_ap xs" by simp
  show "ensure_slice_exact xs =
          (if strictly_monotonic xs then Inl MultiSliceError else Inl ValueError_non_monotonic)"
    unfolding ensure_slice_exact_cases[OF len nap] strictly_monotonic_def
      exact_diffs_pos_iff exact_diffs_neg_iff ..
qed

lemma indices_to_slice_exact_outcomes:
  "(indices_to_slice_exact xs = Inl ValueError_no_overlap \<longleftrightarrow> xs = [])
   \<and> (is_ap xs \<longrightarrow> (\<exists>r. indices_to_slice_exact xs = Inr r \<and> slice_enum r = xs))
   \<and> (\<forall>r. indices_to_slice_exact xs = Inr r \<longrightarrow> is_ap xs \<and> slice_enum r = xs)
   \<and> (indices_to_slice_exact xs = Inl ValueError_not_a_slice \<longrightarrow> xs \<noteq> [] \<and> \<not> is_ap xs)"
proof -
  have p1: "indices_to_slice_exact xs = Inl ValueError_no_overlap \<longleftrightarrow> xs = []"
    by (rule indices_to_slice_exact_no_overlap_iff)
  have p2: "\<exists>r. indices_to_slice_exact xs = Inr r \<and> slice_enum r = xs" if ap: "is_ap xs"
  proof (cases "length xs = 1")
    case True
    then obtain v where v: "xs = [v]" by (cases xs) auto
    show ?thesis unfolding v
      by (simp add: indices_to_slice_exact_single slice_enum_def arange_single)
  next
    case False
    with ap have len: "length xs \<ge> 2" by (intro length_ge2I) (auto simp: is_ap_def)
    note D = is_ap_D[OF ap len]
    show ?thesis unfolding indices_to_slice_exact_ap[OF len ap]
      using ensure_slice_exact_ap(2)[OF len D] by (simp add: slice_enum_def)
  qed
  have p3a: "is_ap xs" if r: "indices_to_slice_exact xs = Inr r" for r
  proof (cases "length xs = 1")
    case True
    then obtain v where v: "xs = [v]" by (cases xs) auto
    show ?thesis unfolding v by (rule is_ap_single)
  next
    case False
    moreover from r have "xs \<noteq> []" using p1 by auto
    ultimately have len: "length xs \<ge> 2" by (intro length_ge2I)
    from r len show ?thesis by (rule indices_to_slice_exact_Inr_ap)
  qed
  have p3b: "slice_enum r = xs" if r: "indices_to_slice_exact xs = Inr r" for r
    using p2[OF p3a[OF r]] r by auto
  have p4: "xs \<noteq> [] \<and> \<not> is_ap xs" if e: "indices_to_slice_exact xs = Inl ValueError_not_a_slice"
  proof
    from e show "xs \<noteq> []" using p1 by auto
    show "\<not> is_ap xs"
    proof
      assume "is_ap xs"
      from p2[OF this] e show False by auto
    qed
  qed
  from p1 p2 p3a p3b p4 show ?thesis by blast
qed

lemma arange_elem:
  assumes "v \<in> set (arange a b st)"
  obtains k where "k < arange_len a b st" "v = a + int k * st"
  using assms by (auto simp: arange_def)

lemma slice_indices_arange_bound:
  assumes "slice_indices s len = Inr (a, b, st)" "v \<in> set (arange a b st)"
  shows "v < len"
proof -
  from assms(1) have st0: "st \<noteq> 0" and len: "0 \<le> len"
    by (auto simp: slice_indices_def Let_def split: if_splits)
  from assms(2) obtain k where k: "k < arange_len a b st" "v = a + int k * st"
    by (rule arange_elem)
  show ?thesis
  proof (cases "st > 0")
    case True
    then have "v < b" using k by (simp add: arange_len_pos_iff)
    moreover have "b \<le> len" using assms(1) True len
      by (auto simp: slice_indices_def Let_def split: if_splits option.splits)
    ultimately show ?thesis by simp
  next
    case False
    then have neg: "st < 0" using st0 by simp
    then have "int k * st \<le> 0" by (simp add: mult_le_0_iff)
    then have "v \<le> a" using k by simp
    moreover have "a \<le> len - 1" using assms(1) neg len
      by (auto simp: slice_indices_def Let_def split: if_splits option.splits)
    ultimately show ?thesis by simp
  qed
qed


lemma length_takeWhile_less_ex:
  "\<exists>x\<in>set xs. \<not> P x \<Longrightarrow> length (takeWhile P xs) < length xs"
  by (induction xs) auto

lemma searchsorted_found:
  assumes "v \<in> set ls"
  shows "searchsorted ls (argsort ls) v < length (argsort ls)"
    and "ls ! (argsort ls ! searchsorted ls (argsort ls) v) = v"
proof -
  let ?srt = "argsort ls"
  let ?P = "\<lambda>i. ls ! i < v"
  let ?p = "length (takeWhile ?P ?srt)"
  from assms obtain i where i: "i < length ls" "ls ! i = v" by (auto simp: in_set_conv_nth)
  then have mem: "i \<in> set ?srt" by (simp add: argsort_props)
  moreover have "\<not> ?P i" using i by simp
  ultimately have p: "?p < length ?srt" by (intro length_takeWhile_less_ex) blast
  then show "searchsorted ls ?srt v < length ?srt" by (simp add: searchsorted_def)
  from p have ge: "\<not> ?P (?srt ! ?p)" by (rule nth_length_takeWhile)
  from mem obtain q where q: "q < length ?srt" "?srt ! q = i" by (auto simp: in_set_conv_nth)
  have "\<not> q < ?p"
  proof
    assume "q < ?p"
    then have "takeWhile ?P ?srt ! q \<in> set (takeWhile ?P ?srt)" by (intro nth_mem)
    then have "?P (takeWhile ?P ?srt ! q)" by (rule set_takeWhileD[THEN conjunct2])
    moreover have "takeWhile ?P ?srt ! q = ?srt ! q" using \<open>q < ?p\<close> by (rule takeWhile_nth)
    ultimately show False using q i by simp
  qed
  then have "?p \<le> q" by simp
  with argsort_props(4)[of ls] q(1) have "map (\<lambda>i. ls ! i) ?srt ! ?p \<le> map (\<lambda>i. ls ! i) ?srt ! q"
    by (intro sorted_nth_mono) simp_all
  then have "ls ! (?srt ! ?p) \<le> v" using p q i by simp
  with ge show "ls ! (?srt ! searchsorted ls ?srt v) = v" by (simp add: searchsorted_def)
qed

lemma map_fst_filter_zip:
  "map fst (filter (\<lambda>(i, l). Q i l) (zip (map f cs) cs)) =
     concat (map (\<lambda>l. if Q (f l) l then [f l] else []) cs)"
  by (induction cs) auto

lemma found_positions:
  assumes d: "distinct ls"
    and p: "searchsorted ls (argsort ls) l < length (argsort ls)"
  shows "(if ls ! (argsort ls ! searchsorted ls (argsort ls) l) = l
          then [argsort ls ! searchsorted ls (argsort ls) l] else []) = flatnonzero_eq l ls"
proof -
  let ?i = "argsort ls ! searchsorted ls (argsort ls) l"
  from p have "?i \<in> set (argsort ls)" by (rule nth_mem)
  then have i: "?i < length ls" by (simp add: argsort_props)
  show ?thesis
  proof (cases "l \<in> set ls")
    case True
    then have e: "ls ! ?i = l" by (rule searchsorted_found(2))
    from flatnonzero_eq_distinct[OF d i] show ?thesis by (simp add: e)
  next
    case False
    moreover have "ls ! ?i \<in> set ls" using i by (rule nth_mem)
    ultimately have "ls ! ?i \<noteq> l" by auto
    then show ?thesis using False by (simp add: flatnonzero_eq_absent)
  qed
qed

lemma resolve_label_range_Inr:
  assumes init: "LabelIndexer_init dt L = Inr ix"
    and res: "resolve_label_range ix s = Inr inds"
  shows "inds = label_positions L (candidate_labels ix s)"
proof -
  from init have d: "distinct L" and lab: "labels ix = L" and srt: "sorter ix = argsort L"
    by (auto simp: LabelIndexer_init_Inr_iff)
  from res obtain a b st where si: "slice_indices s (max_label ix) = Inr (a, b, st)"
    by (auto simp: resolve_label_range_def split: sum.splits)
  define cs where "cs = arange a b st"
  define f where "f = (\<lambda>l. argsort L ! searchsorted L (argsort L) l)"
  have cand: "candidate_labels ix s = cs" by (simp add: candidate_labels_def si cs_def)
  from res have ok: "list_all (\<lambda>p. p < length (argsort L)) (map (searchsorted L (argsort L)) cs)"
    and inds: "inds = map fst (filter (\<lambda>(i, l). L ! i = l) (zip (map f cs) cs))"
    by (auto simp: resolve_label_range_def si take_positions_def Let_def lab srt cs_def f_def
        comp_def split: if_splits)
  have "concat (map (\<lambda>l. if L ! f l = l then [f l] else []) cs) =
        concat (map (\<lambda>l. flatnonzero_eq l L) cs)"
  proof -
    have "(if L ! f l = l then [f l] else []) = flatnonzero_eq l L" if "l \<in> set cs" for l
    proof -
      from ok that have "searchsorted L (argsort L) l < length (argsort L)"
        by (auto simp: list_all_iff)
      from found_positions[OF d this] show ?thesis by (simp only: f_def)
    qed
    then have "map (\<lambda>l. if L ! f l = l then [f l] else []) cs = map (\<lambda>l. flatnonzero_eq l L) cs"
      by (intro map_cong refl)
    then show ?thesis by (rule arg_cong)
  qed
  then show ?thesis
    unfolding inds cand label_positions_def map_fst_filter_zip .
qed

lemma label_positions_bound: "p \<in> set (label_positions L cs) \<Longrightarrow> p < length L"
  by (auto simp: label_positions_def flatnonzero_eq_def)

lemma label_positions_intp:
  assumes "length L < 2 ^ 63"
  shows "intp_ordinals (map int (label_positions L cs))"
proof -
  have "0 \<le> int p \<and> int p < 2 ^ 63 - 1" if "p \<in> set (label_positions L cs)" for p
  proof -
    from label_positions_bound[OF that] assms have "int p < int (length L)" "int (length L) < 2 ^ 63"
      by simp_all
    then show ?thesis by simp
  qed
  then show ?thesis by (simp add: intp_ordinals_def list_all_iff)
qed

lemma flatnonzero_eq_Nil_iff: "flatnonzero_eq l L = [] \<longleftrightarrow> l \<notin> set L"
  by (auto simp: flatnonzero_eq_def filter_empty_conv in_set_conv_nth)

lemma label_positions_Nil_iff:
  "label_positions L cs = [] \<longleftrightarrow> (\<forall>l\<in>set cs. l \<notin> set L)"
  by (simp add: label_positions_def flatnonzero_eq_Nil_iff)

lemma utils_get_many_outcomes:
  assumes init: "LabelIndexer_init dt L = Inr ix" and size: "length L < 2 ^ 63"
  shows "case label_slice_to_indices ix s of
      Inl e \<Rightarrow> utils_get_many ix s = Inl e
    | Inr inds \<Rightarrow>
        inds = label_positions L
                 (candidate_labels ix (clamp_label_slice (min_label ix) (min_label ix - 1) s))
      \<and> (inds = [] \<longleftrightarrow>
           (\<forall>l\<in>set (candidate_labels ix
                        (clamp_label_slice (min_label ix) (min_label ix - 1) s)). l \<notin> set L))
      \<and> (utils_get_many ix s = Inl ValueError_empty_array \<longleftrightarrow> inds = [])
      \<and> (is_ap (map int inds) \<longrightarrow>
           (\<exists>r. utils_get_many ix s = Inr r \<and> slice_enum r = map int inds))
      \<and> (\<forall>r. utils_get_many ix s = Inr r \<longrightarrow>
           is_ap (map int inds) \<and> slice_enum r = map int inds)
      \<and> (inds \<noteq> [] \<and> \<not> is_ap (map int inds) \<longrightarrow>
           utils_get_many ix s =
             (if strictly_monotonic (map int inds) then Inl MultiSliceError
              else Inl ValueError_non_monotonic))"
proof (cases "label_slice_to_indices ix s")
  case (Inl e)
  then show ?thesis by (simp add: utils_get_many_def)
next
  case (Inr inds)
  then have ch: "inds = label_positions L
      (candidate_labels ix (clamp_label_slice (min_label ix) (min_label ix - 1) s))"
    unfolding label_slice_to_indices_def by (rule resolve_label_range_Inr[OF init])
  have "intp_ordinals (map int inds)" unfolding ch by (rule label_positions_intp[OF size])
  then have u: "utils_get_many ix s = ensure_slice_exact (map int inds)"
    by (simp add: utils_get_many_def Inr ensure_slice_array_intp
        del: ensure_slice_array.simps ensure_slice_exact.simps)
  have e: "(map int inds = []) = (inds = [])" by simp
  have z: "inds = [] \<longleftrightarrow>
      (\<forall>l\<in>set (candidate_labels ix
                   (clamp_label_slice (min_label ix) (min_label ix - 1) s)). l \<notin> set L)"
    unfolding ch by (rule label_positions_Nil_iff)
  from ensure_slice_exact_outcomes[of "map int inds"] ch z
  show ?thesis unfolding Inr sum.case u e by blast
qed

lemma indexables_get_slice_outcomes:
  assumes init: "LabelIndexer_init dt L = Inr ix" and size: "length L < 2 ^ 63"
  shows "case get_slice_indices ix s of
      Inl e \<Rightarrow> indexables_get_slice ix s = Inl e
    | Inr inds \<Rightarrow>
        inds = label_positions L
                 (candidate_labels ix
                    (clamp_label_slice (min_label ix)
                       (wrap (labels_dtype ix) (min_label ix - 1)) s))
      \<and> (inds = [] \<longleftrightarrow>
           (\<forall>l\<in>set (candidate_labels ix
                        (clamp_label_slice (min_label ix)
                           (wrap (labels_dtype ix) (min_label ix - 1)) s)). l \<notin> set L))
      \<and> (indexables_get_slice ix s = Inl ValueError_no_overlap \<longleftrightarrow> inds = [])
      \<and> (is_ap (map int inds) \<longrightarrow>
           (\<exists>r. indexables_get_slice ix s = Inr r \<and> slice_enum r = map int inds))
      \<and> (\<forall>r. indexables_get_slice ix s = Inr r \<longrightarrow>
           is_ap (map int inds) \<and> slice_enum r = map int inds)
      \<and> (indexables_get_slice ix s = Inl ValueError_not_a_slice \<longrightarrow>
           inds \<noteq> [] \<and> \<not> is_ap (map int inds))"
proof (cases "get_slice_indices ix s")
  case (Inl e)
  then show ?thesis by (simp add: indexables_get_slice_def)
next
  case (Inr inds)
  then have ch: "inds = label_positions L
      (candidate_labels ix
         (clamp_label_slice (min_label ix) (wrap (labels_dtype ix) (min_label ix - 1)) s))"
    unfolding get_slice_indices_def by (rule resolve_label_range_Inr[OF init])
  have "intp_ordinals (map int inds)" unfolding ch by (rule label_positions_intp[OF size])
  then have u: "indexables_get_slice ix s = indices_to_slice_exact (map int inds)"
    by (simp add: indexables_get_slice_def Inr indices_to_slice_intp)
  have e: "(map int inds = []) = (inds = [])" by simp
  have z: "inds = [] \<longleftrightarrow>
      (\<forall>l\<in>set (candidate_labels ix
                   (clamp_label_slice (min_label ix)
                      (wrap (labels_dtype ix) (min_label ix - 1)) s)). l \<notin> set L)"
    unfolding ch by (rule label_positions_Nil_iff)
  from indices_to_slice_exact_outcomes[of "map int inds"] ch z
  show ?thesis unfolding Inr sum.case u e by blast
qed




section \<open>Properties of the structured trace indexer\<close>

lemma slice_indices_arange_lower:
  assumes "slice_indices s len = Inr (a, b, st)" "v \<in> set (arange a b st)"
  shows "0 \<le> v"
proof -
  from assms(1) have st0: "st \<noteq> 0" and len: "0 \<le> len"
    by (auto simp: slice_indices_def Let_def split: if_splits)
  from assms(2) obtain k where k: "k < arange_len a b st" "v = a + int k * st"
    by (rule arange_elem)
  show ?thesis
  proof (cases "st > 0")
    case True
    then have "int k * st \<ge> 0" by simp
    then have "a \<le> v" using k by simp
    moreover have "0 \<le> a" using assms(1) True len
      by (auto simp: slice_indices_def Let_def split: if_splits option.splits)
    ultimately show ?thesis by simp
  next
    case False
    then have neg: "st < 0" using st0 by simp
    then have "b < v" using k by (simp add: arange_len_neg_iff)
    moreover have "- 1 \<le> b" using assms(1) neg len
      by (auto simp: slice_indices_def Let_def split: if_splits option.splits)
    ultimately show ?thesis by simp
  qed
qed

lemma arange_strict_sorted:
  assumes "st > 0"
  shows "sorted_wrt (<) (arange a b st)"
  unfolding arange_def sorted_wrt_map
  by (rule sorted_wrt_mono_rel[of _ "(<)"]) (use assms in \<open>auto simp: sorted_wrt_upt\<close>)

lemma slice_select_props:
  assumes "slice_select n s = Inr sel"
  shows "\<forall>k\<in>set sel. 0 \<le> k \<and> k < int n"
proof -
  from assms obtain a b st where si: "slice_indices s (int n) = Inr (a, b, st)"
    and sel: "sel = arange a b st"
    by (auto simp: slice_select_def split: sum.splits)
  show ?thesis unfolding sel
    using slice_indices_arange_lower[OF si] slice_indices_arange_bound[OF si] by blast
qed

lemma slice_select_sorted:
  assumes "slice_select n s = Inr sel" "step s = None \<or> (\<exists>k>0. step s = Some k)"
  shows "sorted_wrt (<) sel"
proof -
  from assms(1) obtain a b st where si: "slice_indices s (int n) = Inr (a, b, st)"
    and sel: "sel = arange a b st"
    by (auto simp: slice_select_def split: sum.splits)
  from si assms(2) have "st > 0"
    by (auto simp: slice_indices_def Let_def split: if_splits)
  then show ?thesis unfolding sel by (rule arange_strict_sorted)
qed

lemma length_unravel_coords [simp]: "length (unravel_coords shape k) = length shape"
  by (induction shape) auto

lemma unravel_coords_bounds:
  assumes "\<forall>d\<in>set shape. 0 < d" "j < length shape"
  shows "0 \<le> unravel_coords shape k ! j \<and> unravel_coords shape k ! j < int (shape ! j)"
  using assms
proof (induction shape arbitrary: j)
  case Nil
  then show ?case by simp
next
  case (Cons d ds)
  show ?case
  proof (cases j)
    case 0
    then show ?thesis using Cons.prems by simp
  next
    case (Suc j')
    then show ?thesis using Cons.IH[of j'] Cons.prems by simp
  qed
qed

lemma ravel_unravel:
  assumes "\<forall>d\<in>set shape. 0 < d"
  shows "ravel shape (unravel_coords shape k) = k mod int (prod_list shape)"
  using assms
proof (induction shape)
  case Nil
  then show ?case by simp
next
  case (Cons d ds)
  then have ih: "ravel ds (unravel_coords ds k) = k mod int (prod_list ds)" by simp
  have "k mod (int (prod_list ds) * int d) =
        int (prod_list ds) * (k div int (prod_list ds) mod int d) + k mod int (prod_list ds)"
    by (rule mod_mult2_eq')
  then show ?case by (simp add: ih mult.commute)
qed

lemma positions_filter:
  "map (\<lambda>i. xs ! i) (map fst (filter (\<lambda>(i, p). Q p) (zip [0..<length xs] xs))) = filter Q xs"
proof -
  have z: "zip [0..<length xs] xs = map (\<lambda>i. (i, xs ! i)) [0..<length xs]"
    by (rule nth_equalityI) auto
  have "map (\<lambda>i. xs ! i) (map fst (filter (\<lambda>(i, p). Q p) (zip [0..<length xs] xs)))
      = map (\<lambda>i. xs ! i) (filter (\<lambda>i. Q (xs ! i)) [0..<length xs])"
    unfolding z by (simp add: filter_map comp_def)
  also have "\<dots> = filter Q (map (\<lambda>i. xs ! i) [0..<length xs])"
    by (simp add: filter_map comp_def)
  also have "map (\<lambda>i. xs ! i) [0..<length xs] = xs" by (rule map_nth)
  finally show ?thesis .
qed

lemma positions_bound:
  "i \<in> set (map fst (filter (\<lambda>(i, p). Q p) (zip [0..<length xs] xs))) \<Longrightarrow> i < length xs"
  by (auto simp: set_zip)

lemma ravel_product_bounds:
  assumes "list_all2 axis_ok shape us" "p \<in> set (it_product us)"
  shows "0 \<le> ravel shape p \<and> ravel shape p < int (prod_list shape)"
  using assms
proof (induction shape us arbitrary: p rule: list_all2_induct)
  case Nil
  then show ?case by simp
next
  case (Cons d ds u us)
  from Cons.prems obtain c q where p: "p = c # q" and c: "c \<in> set u"
    and q: "q \<in> set (it_product us)" by auto
  from Cons.IH[OF q] have r: "0 \<le> ravel ds q" "ravel ds q < int (prod_list ds)" by auto
  from Cons.hyps(1) c have cb: "0 \<le> c" "c + 1 \<le> int d" by (auto simp: axis_ok_def)
  let ?M = "int (prod_list ds)"
  have M: "0 \<le> ?M" by simp
  have "c * ?M + ravel ds q < (c + 1) * ?M" using r by (simp add: algebra_simps)
  also have "\<dots> \<le> int d * ?M" using cb M by (intro mult_right_mono) auto
  finally have "c * ?M + ravel ds q < int d * ?M" .
  moreover have "0 \<le> c * ?M + ravel ds q" using cb r M by simp
  ultimately show ?case by (simp add: p)
qed

lemma block_sorted:
  fixes r :: "'a \<Rightarrow> int"
  assumes "sorted_wrt (<) u" "\<forall>p\<in>set P. 0 \<le> r p \<and> r p < M" "sorted_wrt (<) (map r P)"
  shows "sorted_wrt (<) (concat (map (\<lambda>x. map (\<lambda>p. x * M + r p) P) u))"
  using assms(1)
proof (induction u)
  case Nil
  then show ?case by simp
next
  case (Cons x u)
  have head: "sorted_wrt (<) (map (\<lambda>p. x * M + r p) P)"
    using assms(3) by (simp add: sorted_wrt_map)
  have tail: "sorted_wrt (<) (concat (map (\<lambda>x. map (\<lambda>p. x * M + r p) P) u))"
    using Cons by simp
  have cross: "a < b" if "a \<in> set (map (\<lambda>p. x * M + r p) P)"
    "b \<in> set (concat (map (\<lambda>x. map (\<lambda>p. x * M + r p) P) u))" for a b
  proof -
    from that(1) obtain p where p: "p \<in> set P" "a = x * M + r p" by auto
    from that(2) obtain y q where y: "y \<in> set u" "q \<in> set P" "b = y * M + r q" by auto
    from Cons.prems y(1) have xy: "x + 1 \<le> y" by auto
    have M: "0 \<le> M" using assms(2) p(1) by fastforce
    have "a < (x + 1) * M" using assms(2) p by (simp add: algebra_simps)
    also have "\<dots> \<le> y * M" using xy M by (rule mult_right_mono)
    also have "\<dots> \<le> b" using assms(2) y by simp
    finally show ?thesis .
  qed
  show ?case
    using head tail cross by (simp add: sorted_wrt_append)
qed

lemma it_product_ravel_sorted:
  assumes "list_all2 axis_ok shape us"
  shows "sorted_wrt (<) (map (ravel shape) (it_product us))"
  using assms
proof (induction shape us rule: list_all2_induct)
  case Nil
  then show ?case by simp
next
  case (Cons d ds u us)
  let ?M = "int (prod_list ds)"
  have b: "\<forall>p\<in>set (it_product us). 0 \<le> ravel ds p \<and> ravel ds p < ?M"
    using ravel_product_bounds[OF Cons.hyps(2)] by blast
  have s: "sorted_wrt (<) u" using Cons.hyps(1) by (simp add: axis_ok_def)
  have "map (ravel (d # ds)) (it_product (u # us)) =
        concat (map (\<lambda>x. map (\<lambda>p. x * ?M + ravel ds p) (it_product us)) u)"
    by (simp add: map_concat comp_def)
  then show ?case using block_sorted[OF s b Cons.IH] by simp
qed

lemma it_product_mem:
  "p \<in> set (it_product us) \<longleftrightarrow> length p = length us \<and> (\<forall>j<length us. p ! j \<in> set (us ! j))"
proof (induction us arbitrary: p)
  case Nil
  then show ?case by simp
next
  case (Cons u us)
  show ?case
  proof (cases p)
    case Nil
    then show ?thesis by auto
  next
    case (Cons c q)
    have "(\<forall>j<Suc (length us). (c # q) ! j \<in> set ((u # us) ! j)) \<longleftrightarrow>
          c \<in> set u \<and> (\<forall>j<length us. q ! j \<in> set (us ! j))"
      by (auto simp: less_Suc_eq_0_disj)
    then show ?thesis using Cons.IH[of q] Cons by auto
  qed
qed

lemma sequence_results_map_Inr: "sequence_results (map Inr vs) = Inr vs"
  by (induction vs) auto

lemma sequence_results_InrD: "sequence_results rs = Inr vs \<Longrightarrow> rs = map Inr vs"
  by (induction rs arbitrary: vs) (auto split: sum.splits)

lemma sequence_results_Inr_iff: "sequence_results rs = Inr vs \<longleftrightarrow> rs = map Inr vs"
  using sequence_results_map_Inr sequence_results_InrD by blast

lemma sequence_results_cases:
  assumes "\<forall>r\<in>set rs. r = Inl E \<or> (\<exists>v. r = Inr v)"
  shows "sequence_results rs = Inl E \<or> (\<exists>vs. sequence_results rs = Inr vs)"
  using assms
proof (induction rs)
  case Nil
  then show ?case by simp
next
  case (Cons r rs)
  then show ?case by (cases r; cases "sequence_results rs") auto
qed

lemma sorted_diffs_pos:
  assumes "sorted_wrt (<) u"
  shows "list_all (\<lambda>d. d > 0) (exact_diffs u)"
  using assms by (simp add: exact_diffs_pos_iff)

lemma ensure_slice_sorted_cases:
  assumes "sorted_wrt (<) u" "u \<noteq> []"
  shows "ensure_slice_exact u = Inl MultiSliceError
       \<or> (\<exists>sl. ensure_slice_exact u = Inr sl)"
  using sorted_diffs_pos[OF assms(1)] assms(2)
  by (simp add: Let_def)

lemma ensure_slice_select:
  assumes es: "ensure_slice_exact u = Inr sl"
    and ok: "axis_ok n u"
  shows "slice_select n sl = Inr u"
proof -
  from ok have srt: "sorted_wrt (<) u" and bnd: "\<forall>c\<in>set u. 0 \<le> c \<and> c < int n"
    by (auto simp: axis_ok_def)
  from es have ne: "u \<noteq> []" by auto
  show ?thesis
  proof (cases "length u = 1")
    case True
    then obtain v where v: "u = [v]" by (cases u) auto
    with bnd have "0 \<le> v" "v < int n" by auto
    moreover from es v have "sl = Slice (Some v) (Some (v + 1)) None"
      by (simp add: ensure_slice_int_def)
    ultimately show ?thesis
      by (simp add: slice_select_def slice_indices_def v arange_single)
  next
    case False
    with ne have len: "length u \<ge> 2" by (cases u) (auto simp: Suc_le_eq)
    from es len have ap: "is_ap u" by (rule ensure_slice_exact_Inr_ap)
    define d where "d = u ! 1 - u ! 0"
    note D = is_ap_D[OF ap len, folded d_def]
    have "u ! 0 < u ! 1" using sorted_wrt_nth_less[OF srt, of 0 1] len by simp
    then have dpos: "d > 0" by (simp add: d_def)
    then have sg: "sgn d = 1" by simp
    from ensure_slice_exact_ap[OF len D] es
    have sl: "sl = Slice (Some (u ! 0)) (Some (last u + 1)) (Some d)"
      and ar: "arange (u ! 0) (last u + 1) d = u"
      by (simp_all add: sg)
    have "u ! 0 \<in> set u" "last u \<in> set u" using ne by simp_all
    with bnd have b0: "0 \<le> u ! 0" "u ! 0 < int n" and bl: "0 \<le> last u" "last u < int n"
      by auto
    have "slice_indices sl (int n) = Inr (u ! 0, last u + 1, d)"
      using dpos b0 bl by (simp add: sl slice_indices_def Let_def)
    then show ?thesis by (simp add: slice_select_def ar)
  qed
qed

lemma zip_star_transpose:
  assumes "n > 0" "\<forall>k\<in>set ks. length (f k) = n"
  shows "zip_star (map (\<lambda>j. map (\<lambda>k. f k ! j) ks) [0..<n]) = map f ks"
proof -
  let ?U = "map (\<lambda>j. map (\<lambda>k. f k ! j) ks) [0..<n]"
  have "set (map length ?U) = {length ks}" using assms(1) by (auto simp: image_iff)
  then have m: "Min (set (map length ?U)) = length ks" by simp
  have ne: "?U \<noteq> []" using assms(1) by simp
  have "zip_star ?U = map (\<lambda>i. map (\<lambda>xs. xs ! i) ?U) [0..<length ks]"
    unfolding zip_star_def m using ne by simp
  also have "\<dots> = map f ks"
  proof (rule nth_equalityI)
    show "length (map (\<lambda>i. map (\<lambda>xs. xs ! i) ?U) [0..<length ks]) = length (map f ks)" by simp
  next
    fix i assume "i < length (map (\<lambda>i. map (\<lambda>xs. xs ! i) ?U) [0..<length ks])"
    then have i: "i < length ks" by simp
    then have l: "length (f (ks ! i)) = n" using assms(2) by simp
    have "map (\<lambda>xs. xs ! i) ?U = map (\<lambda>j. f (ks ! i) ! j) [0..<n]"
      using i by (simp add: comp_def)
    also have "\<dots> = f (ks ! i)" using map_nth[of "f (ks ! i)"] l by simp
    finally show "map (\<lambda>i. map (\<lambda>xs. xs ! i) ?U) [0..<length ks] ! i = map f ks ! i"
      using i by simp
  qed
  finally show ?thesis .
qed

lemma strict_sorted_np_unique: "sorted_wrt (<) (np_unique xs)"
  by (simp add: np_unique_def strict_sorted_iff)

lemma set_np_unique [simp]: "set (np_unique xs) = set xs"
  by (simp add: np_unique_def)

lemma strict_sorted_eqI:
  fixes xs ys :: "int list"
  assumes "sorted_wrt (<) xs" "sorted_wrt (<) ys" "set xs = set ys"
  shows "xs = ys"
  using assms by (intro sorted_distinct_set_unique) (auto simp: strict_sorted_iff)

lemma filter_product_eq:
  assumes ok: "list_all2 axis_ok shape us"
    and pos: "\<forall>d\<in>set shape. 0 < d"
    and bnd: "\<forall>k\<in>set sel. 0 \<le> k \<and> k < int (prod_list shape)"
    and srt: "sorted_wrt (<) sel"
    and sub: "\<forall>k\<in>set sel. unravel_coords shape k \<in> set (it_product us)"
  shows "filter (\<lambda>p. p \<in> set (map (unravel_coords shape) sel)) (it_product us)
         = map (unravel_coords shape) sel"
proof -
  let ?P = "it_product us"
  let ?M = "map (unravel_coords shape) sel"
  let ?F = "filter (\<lambda>p. p \<in> set ?M) ?P"
  let ?r = "ravel shape"
  have sortedP: "sorted_wrt (<) (map ?r ?P)" by (rule it_product_ravel_sorted[OF ok])
  then have "distinct (map ?r ?P)" by (simp add: strict_sorted_iff)
  then have injP: "inj_on ?r (set ?P)" by (simp add: distinct_map)
  have MP: "set ?M \<subseteq> set ?P" using sub by auto
  then have setF: "set ?F = set ?M" by auto
  have "sorted_wrt (\<lambda>a b. ?r a < ?r b) ?P" using sortedP by (simp add: sorted_wrt_map)
  then have "sorted_wrt (\<lambda>a b. ?r a < ?r b) ?F" by (rule sorted_wrt_filter)
  then have sortedF: "sorted_wrt (<) (map ?r ?F)" by (simp add: sorted_wrt_map)
  have rM: "map ?r ?M = sel"
  proof (rule nth_equalityI)
    show "length (map ?r ?M) = length sel" by simp
  next
    fix i assume "i < length (map ?r ?M)"
    then have i: "i < length sel" by simp
    then have "0 \<le> sel ! i \<and> sel ! i < int (prod_list shape)" using bnd by simp
    then have "sel ! i mod int (prod_list shape) = sel ! i" by simp
    then show "map ?r ?M ! i = sel ! i" using i by (simp add: ravel_unravel[OF pos])
  qed
  have "set (map ?r ?F) = ?r ` set ?F" by (rule set_map)
  also have "\<dots> = ?r ` set ?M" by (simp only: setF)
  also have "\<dots> = set (map ?r ?M)" by (rule set_map[symmetric])
  finally have "set (map ?r ?F) = set (map ?r ?M)" .
  then have "set (map ?r ?F) = set sel" by (simp only: rM)
  with sortedF srt have "map ?r ?F = sel" by (rule strict_sorted_eqI)
  then have "map ?r ?F = map ?r ?M" by (simp only: rM)
  moreover have "inj_on ?r (set ?F \<union> set ?M)"
    using injP MP by (auto intro: inj_on_subset)
  ultimately show ?thesis by (simp only: inj_on_map_eq_map)
qed

lemma prod_list_pos_iff: "0 < prod_list (shape :: nat list) \<longleftrightarrow> (\<forall>d\<in>set shape. 0 < d)"
  by (induction shape) auto

lemma member_le_prod_list:
  "\<forall>d\<in>set shape. 0 < d \<Longrightarrow> x \<in> set shape \<Longrightarrow> x \<le> prod_list (shape :: nat list)"
proof (induction shape)
  case Nil
  then show ?case by simp
next
  case (Cons a shape)
  then have a: "0 < a" and p: "0 < prod_list shape" by (auto simp: prod_list_pos_iff)
  show ?case
  proof (cases "x = a")
    case True
    then show ?thesis using p by simp
  next
    case False
    with Cons have "x \<le> prod_list shape" by simp
    also have "\<dots> \<le> a * prod_list shape" using a by simp
    finally show ?thesis by simp
  qed
qed

lemma axis_ok_intp:
  assumes "axis_ok n u" "n < 2 ^ 63"
  shows "intp_ordinals u"
proof -
  have "0 \<le> c \<and> c < 2 ^ 63 - 1" if "c \<in> set u" for c
  proof -
    from assms(1) that have "0 \<le> c" "c < int n" by (auto simp: axis_ok_def)
    moreover from assms(2) have "int n < 2 ^ 63" by simp
    ultimately show ?thesis by simp
  qed
  then show ?thesis by (simp add: intp_ordinals_def list_all_iff)
qed

lemma unravel_index_Inr:
  assumes "shape \<noteq> []" "\<forall>k\<in>set ks. 0 \<le> k \<and> k < int (prod_list shape)"
  shows "unravel_index ks shape =
         Inr (map (\<lambda>j. map (\<lambda>k. unravel_coords shape k ! j) ks) [0..<length shape])"
  using assms by (simp add: unravel_index_def list_all_iff)

lemma get_many_unfold:
  assumes sel: "slice_select (TraceIndexer_len shape) s = Inr sel"
    and ne: "shape \<noteq> []"
  defines "U \<equiv> map (\<lambda>j. map (\<lambda>k. unravel_coords shape k ! j) sel) [0..<length shape]"
  shows "StructuredTraceIndexer_get_many shape s =
     (case sequence_results
             (map (\<lambda>u. ensure_slice (OArray (Array1 (Integer Int64) u))) (map np_unique U)) of
        Inl e \<Rightarrow> Inl e
      | Inr bounding_box \<Rightarrow>
          Inr (map ASlice bounding_box,
               Some (map fst (filter (\<lambda>(i, point). point \<in> set (zip_star U))
                       (zip [0..<length (it_product (map np_unique U))]
                            (it_product (map np_unique U)))))))"
proof -
  have "\<forall>k\<in>set sel. 0 \<le> k \<and> k < int (prod_list shape)"
    using slice_select_props[OF sel] by (simp add: TraceIndexer_len_def)
  then have u: "unravel_index sel shape = Inr U"
    unfolding U_def by (rule unravel_index_Inr[OF ne])
  show ?thesis
    by (simp only: StructuredTraceIndexer_get_many_def sel u Let_def sum.case)
qed

lemma get_many_empty:
  assumes "slice_select (TraceIndexer_len shape) s = Inr []" "shape \<noteq> []"
  shows "StructuredTraceIndexer_get_many shape s = Inl ValueError_empty_array"
proof -
  obtain m where m: "length shape = Suc m" using assms(2) by (cases shape) auto
  have "map (\<lambda>j. map (\<lambda>k. unravel_coords shape k ! j) ([] :: int list)) [0..<length shape]
        = replicate (length shape) []"
    by (simp add: map_replicate_const)
  then show ?thesis
    unfolding get_many_unfold[OF assms] by (simp add: m np_unique_def)
qed

text \<open>
  Claim C10. For a shape with at least one axis and a slice that selects no flat trace
  index, \<^verbatim>\<open>StructuredTraceIndexer.__getitem__\<close> raises the error of \<^verbatim>\<open>ensure_slice\<close> for
  an empty array (the empty coordinate set of the first axis); it does not return an
  empty bounding box and an empty recipe.
\<close>

theorem getitem_empty_selection:
  assumes "slice_select (TraceIndexer_len shape) s = Inr []" "shape \<noteq> []"
  shows "StructuredTraceIndexer_getitem shape (ISlice s) = Inl ValueError_empty_array"
  unfolding StructuredTraceIndexer_getitem.simps by (rule get_many_empty [OF assms])

theorem getitem_empty_selection_witness:
  "StructuredTraceIndexer_getitem [4, 3, 2] (ISlice (Slice (Some 5) (Some 5) None)) =
     Inl ValueError_empty_array"
proof -
  have a: "slice_select (TraceIndexer_len [4, 3, 2]) (Slice (Some 5) (Some 5) None) = Inr []"
    by code_simp
  have b: "[4, 3, 2] \<noteq> ([] :: nat list)" by simp
  show ?thesis by (rule getitem_empty_selection [OF a b])
qed

lemma get_many_selects:
  fixes cell :: "int list \<Rightarrow> 'a"
  assumes ne: "shape \<noteq> []" and valid: "prod_list shape < 2 ^ 63"
    and st: "step s = None \<or> (\<exists>k>0. step s = Some k)"
    and sel: "slice_select (TraceIndexer_len shape) s = Inr sel"
    and sne: "sel \<noteq> []"
  shows "(StructuredTraceIndexer_get_many shape s = Inl MultiSliceError
          \<and> (\<exists>j<length shape. \<not> is_ap (np_unique (map (\<lambda>k. unravel_coords shape k ! j) sel))))
       \<or> (\<exists>box recipe cells.
            StructuredTraceIndexer_get_many shape s = Inr (box, Some recipe)
          \<and> (\<forall>j<length shape. is_ap (np_unique (map (\<lambda>k. unravel_coords shape k ! j) sel)))
          \<and> box_cells shape box = Inr cells
          \<and> length recipe = length sel
          \<and> (\<forall>i\<in>set recipe. i < length cells)
          \<and> map (\<lambda>i. cells ! i) recipe = map (unravel_coords shape) sel
          \<and> map (\<lambda>i. map cell cells ! i) recipe = map (\<lambda>k. cell (unravel_coords shape k)) sel
          \<and> (\<forall>k\<in>set sel. StructuredTraceIndexer_get_one shape k =
                Inr (map AInt (unravel_coords shape k), None)))"
proof -
  let ?n = "length shape"
  let ?c = "unravel_coords shape"
  define U where "U = map (\<lambda>j. map (\<lambda>k. ?c k ! j) sel) [0..<?n]"
  define uniq where "uniq = map np_unique U"
  define f0 where "f0 = (\<lambda>u. ensure_slice (OArray (Array1 (Integer Int64) u)))"
  define f where "f = (\<lambda>u. ensure_slice_exact u)"
  define P where "P = it_product uniq"
  define recipe where
    "recipe = map fst (filter (\<lambda>(i, point). point \<in> set (zip_star U)) (zip [0..<length P] P))"
  have npos: "?n > 0" using ne by simp
  have bnd: "\<forall>k\<in>set sel. 0 \<le> k \<and> k < int (prod_list shape)"
    using slice_select_props[OF sel] by (simp add: TraceIndexer_len_def)
  from sne obtain k0 where "k0 \<in> set sel" by (cases sel) auto
  with bnd have "0 < int (prod_list shape)" by fastforce
  then have pos: "\<forall>d\<in>set shape. 0 < d" by (simp add: prod_list_pos_iff)
  have srt: "sorted_wrt (<) sel" by (rule slice_select_sorted[OF sel st])
  have lenU: "length uniq = ?n" by (simp add: uniq_def U_def)
  have uj: "uniq ! j = np_unique (map (\<lambda>k. ?c k ! j) sel)" if "j < ?n" for j
    using that by (simp add: uniq_def U_def)
  have okj: "axis_ok (shape ! j) (uniq ! j)" if "j < ?n" for j
    unfolding axis_ok_def uj[OF that]
    using unravel_coords_bounds[OF pos that] by (auto simp: strict_sorted_np_unique)
  have ok: "list_all2 axis_ok shape uniq"
    unfolding list_all2_conv_all_nth using lenU okj by simp
  have nej: "uniq ! j \<noteq> []" if "j < ?n" for j
  proof -
    have "set (uniq ! j) \<noteq> {}" unfolding uj[OF that] using sne by simp
    then show ?thesis by auto
  qed
  have unf0: "StructuredTraceIndexer_get_many shape s =
     (case sequence_results (map f0 uniq) of
        Inl e \<Rightarrow> Inl e
      | Inr bounding_box \<Rightarrow> Inr (map ASlice bounding_box, Some recipe))"
    unfolding get_many_unfold[OF sel ne] f0_def uniq_def U_def recipe_def P_def ..
  have "f0 u = f u" if "u \<in> set uniq" for u
  proof -
    from that obtain j where j: "j < ?n" "u = uniq ! j" by (auto simp: in_set_conv_nth lenU)
    have "shape ! j \<le> prod_list shape" using pos j(1) by (intro member_le_prod_list) simp_all
    with valid have "shape ! j < 2 ^ 63" by simp
    from axis_ok_intp[OF okj[OF j(1)] this] show ?thesis
      unfolding j(2) f0_def f_def ensure_slice.simps by (rule ensure_slice_array_intp)
  qed
  then have mf0: "map f0 uniq = map f uniq" by (intro map_cong refl)
  have unf: "StructuredTraceIndexer_get_many shape s =
     (case sequence_results (map f uniq) of
        Inl e \<Rightarrow> Inl e
      | Inr bounding_box \<Rightarrow> Inr (map ASlice bounding_box, Some recipe))"
    unfolding unf0 mf0 ..
  have fcases: "\<forall>r\<in>set (map f uniq). r = Inl MultiSliceError \<or> (\<exists>v. r = Inr v)"
  proof
    fix r assume "r \<in> set (map f uniq)"
    then obtain j where j: "j < ?n" "r = f (uniq ! j)"
      by (auto simp: in_set_conv_nth lenU)
    have "sorted_wrt (<) (uniq ! j)" using okj[OF j(1)] by (simp add: axis_ok_def)
    from ensure_slice_sorted_cases[OF this nej[OF j(1)]]
    show "r = Inl MultiSliceError \<or> (\<exists>v. r = Inr v)" by (simp add: j(2) f_def)
  qed
  have ap_of_Inr: "is_ap u" if "f u = Inr v" for u v
  proof (cases "length u \<ge> 2")
    case True
    with that show ?thesis by (auto simp: f_def intro: ensure_slice_exact_Inr_ap)
  next
    case False
    moreover from that have "u \<noteq> []" by (auto simp: f_def)
    then have "length u \<noteq> 0" by simp
    ultimately have "length u = 1" by arith
    then show ?thesis by (auto simp: is_ap_def)
  qed
  from sequence_results_cases[OF fcases]
  show ?thesis
  proof
    assume fail: "sequence_results (map f uniq) = Inl MultiSliceError"
    have "\<exists>j<?n. \<not> is_ap (uniq ! j)"
    proof (rule ccontr)
      assume "\<not> (\<exists>j<?n. \<not> is_ap (uniq ! j))"
      then have all: "\<And>j. j < ?n \<Longrightarrow> is_ap (uniq ! j)" by blast
      have "\<forall>r\<in>set (map f uniq). \<exists>v. r = Inr v"
      proof
        fix r assume "r \<in> set (map f uniq)"
        then obtain j where j: "j < ?n" "r = f (uniq ! j)"
          by (auto simp: in_set_conv_nth lenU)
        show "\<exists>v. r = Inr v"
        proof (cases "length (uniq ! j) \<ge> 2")
          case True
          from ensure_slice_exact_ap(1)[OF True is_ap_D[OF all[OF j(1)] True]]
          show ?thesis by (simp add: j(2) f_def)
        next
          case False
          moreover have "length (uniq ! j) \<noteq> 0" using nej[OF j(1)] by simp
          ultimately have "length (uniq ! j) = 1" by arith
          then obtain x where "uniq ! j = [x]" by (cases "uniq ! j") auto
          then show ?thesis by (simp add: j(2) f_def)
        qed
      qed
      then have "\<exists>vs. map f uniq = map Inr vs"
        by (induction uniq) (auto simp: Cons_eq_map_conv)
      then obtain vs where "sequence_results (map f uniq) = Inr vs"
        by (auto simp: sequence_results_Inr_iff)
      with fail show False by simp
    qed
    then have "\<exists>j<?n. \<not> is_ap (np_unique (map (\<lambda>k. ?c k ! j) sel))"
      using uj by auto
    with fail show ?thesis unfolding unf by simp
  next
    assume "\<exists>vs. sequence_results (map f uniq) = Inr vs"
    then obtain bbox where bb: "sequence_results (map f uniq) = Inr bbox" by blast
    then have mf: "map f uniq = map Inr bbox" by (simp add: sequence_results_Inr_iff)
    then have lenb: "length bbox = ?n" using lenU by (metis length_map)
    have fj: "f (uniq ! j) = Inr (bbox ! j)" if "j < ?n" for j
      using that mf lenU lenb by (metis nth_map)
    have res: "StructuredTraceIndexer_get_many shape s = Inr (map ASlice bbox, Some recipe)"
      unfolding unf bb by simp
    have allap: "\<forall>j<?n. is_ap (np_unique (map (\<lambda>k. ?c k ! j) sel))"
      using ap_of_Inr[OF fj] uj by auto
    have selj: "slice_select (shape ! j) (bbox ! j) = Inr (uniq ! j)" if "j < ?n" for j
      using fj[OF that] okj[OF that] by (auto simp: f_def intro: ensure_slice_select)
    have "map (\<lambda>(n, sel). axis_select n sel) (zip shape (map ASlice bbox)) = map Inr uniq"
      by (rule nth_equalityI) (auto simp: lenb lenU axis_select_def selj)
    then have cells: "box_cells shape (map ASlice bbox) = Inr P"
      by (simp add: box_cells_def sequence_results_map_Inr P_def)
    have zs: "zip_star U = map ?c sel"
      unfolding U_def by (rule zip_star_transpose[OF npos]) simp
    have sub: "\<forall>k\<in>set sel. ?c k \<in> set (it_product uniq)"
      by (auto simp: it_product_mem lenU uj)
    have rec: "map (\<lambda>i. P ! i) recipe = filter (\<lambda>p. p \<in> set (map ?c sel)) P"
      unfolding recipe_def zs by (rule positions_filter)
    also have "\<dots> = map ?c sel"
      unfolding P_def by (rule filter_product_eq[OF ok pos bnd srt sub])
    finally have coords: "map (\<lambda>i. P ! i) recipe = map ?c sel" .
    then have len: "length recipe = length sel" by (metis length_map)
    have rb: "\<forall>i\<in>set recipe. i < length P"
      unfolding recipe_def using positions_bound by blast
    have "map (\<lambda>i. map cell P ! i) recipe = map cell (map (\<lambda>i. P ! i) recipe)"
      using rb by simp
    also have "\<dots> = map (\<lambda>k. cell (?c k)) sel" by (simp add: coords comp_def)
    finally have vals: "map (\<lambda>i. map cell P ! i) recipe = map (\<lambda>k. cell (?c k)) sel" .
    have one: "\<forall>k\<in>set sel. StructuredTraceIndexer_get_one shape k =
                Inr (map AInt (unravel_coords shape k), None)"
      using bnd by (simp add: StructuredTraceIndexer_get_one_def)
    from res allap cells len rb coords vals one show ?thesis by blast
  qed
qed

text \<open>
  Claim C1, as the code has it. For a shape with at least one axis (a shape of numpy, so
  of fewer than \<open>2 ^ 63\<close> cells) and a slice \<open>s\<close> of positive (or unset) step that selects at
  least one flat trace index,
  \<^verbatim>\<open>StructuredTraceIndexer.__getitem__(s)\<close> either fails with \<^verbatim>\<open>MultiSliceError\<close>, exactly
  when the unique coordinates of some axis are not a single arithmetic progression, or
  returns a bounding box and a recipe such that: the recipe is as long as the selection;
  its positions lie inside the flattened bounding box; and taking them from the flattened
  read of the bounding box gives, element for element and in the order \<open>s\<close> enumerates
  them, the cells (hence the values, for any storage \<open>cell\<close>) that the scalar lookup of
  each selected flat index addresses.
\<close>

theorem getitem_selects_requested:
  fixes cell :: "int list \<Rightarrow> 'a"
  assumes ne: "shape \<noteq> []" and valid: "prod_list shape < 2 ^ 63"
    and st: "step s = None \<or> (\<exists>k>0. step s = Some k)"
    and sel: "slice_select (TraceIndexer_len shape) s = Inr sel"
    and sne: "sel \<noteq> []"
  shows "(StructuredTraceIndexer_getitem shape (ISlice s) = Inl MultiSliceError
          \<and> (\<exists>j<length shape. \<not> is_ap (np_unique (map (\<lambda>k. unravel_coords shape k ! j) sel))))
       \<or> (\<exists>box recipe cells.
            StructuredTraceIndexer_getitem shape (ISlice s) = Inr (box, Some recipe)
          \<and> (\<forall>j<length shape. is_ap (np_unique (map (\<lambda>k. unravel_coords shape k ! j) sel)))
          \<and> box_cells shape box = Inr cells
          \<and> length recipe = length sel
          \<and> (\<forall>i\<in>set recipe. i < length cells)
          \<and> map (\<lambda>i. cells ! i) recipe = map (unravel_coords shape) sel
          \<and> map (\<lambda>i. map cell cells ! i) recipe = map (\<lambda>k. cell (unravel_coords shape k)) sel
          \<and> (\<forall>k\<in>set sel. StructuredTraceIndexer_get_one shape k =
                Inr (map AInt (unravel_coords shape k), None)))"
  unfolding StructuredTraceIndexer_getitem.simps by (rule get_many_selects [OF assms])

theorem getitem_selects_requested_witness:
  "((StructuredTraceIndexer_getitem [4, 3, 2] (ISlice (Slice (Some 2) (Some 9) None)) =
       Inl MultiSliceError
     \<and> (\<exists>j<length [4, 3, 2 :: nat].
          \<not> is_ap (np_unique (map (\<lambda>k. unravel_coords [4, 3, 2] k ! j) [2, 3, 4, 5, 6, 7, 8]))))
    \<or> (\<exists>box recipe cells.
          StructuredTraceIndexer_getitem [4, 3, 2] (ISlice (Slice (Some 2) (Some 9) None)) =
            Inr (box, Some recipe)
        \<and> (\<forall>j<length [4, 3, 2 :: nat].
              is_ap (np_unique (map (\<lambda>k. unravel_coords [4, 3, 2] k ! j) [2, 3, 4, 5, 6, 7, 8])))
        \<and> box_cells [4, 3, 2] box = Inr cells
        \<and> length recipe = length [2, 3, 4, 5, 6, 7, 8 :: int]
        \<and> (\<forall>i\<in>set recipe. i < length cells)
        \<and> map (\<lambda>i. cells ! i) recipe = map (unravel_coords [4, 3, 2]) [2, 3, 4, 5, 6, 7, 8]
        \<and> map (\<lambda>i. map (ravel [4, 3, 2]) cells ! i) recipe =
            map (\<lambda>k. ravel [4, 3, 2] (unravel_coords [4, 3, 2] k)) [2, 3, 4, 5, 6, 7, 8]
        \<and> (\<forall>k\<in>set [2, 3, 4, 5, 6, 7, 8].
              StructuredTraceIndexer_get_one [4, 3, 2] k =
                Inr (map AInt (unravel_coords [4, 3, 2] k), None))))
   \<and> StructuredTraceIndexer_getitem [4, 3, 2] (ISlice (Slice (Some 2) (Some 9) None)) =
       Inr ([ASlice (Slice (Some 0) (Some 2) (Some 1)),
             ASlice (Slice (Some 0) (Some 3) (Some 1)),
             ASlice (Slice (Some 0) (Some 2) (Some 1))],
            Some [2, 3, 4, 5, 6, 7, 8])"
proof (rule conjI)
  have a: "[4, 3, 2] \<noteq> ([] :: nat list)" by simp
  have v: "prod_list [4, 3, 2 :: nat] < 2 ^ 63" by simp
  have b: "step (Slice (Some 2) (Some 9) None) = None
      \<or> (\<exists>k>0. step (Slice (Some 2) (Some 9) None) = Some k)" by simp
  have c: "slice_select (TraceIndexer_len [4, 3, 2]) (Slice (Some 2) (Some 9) None) =
      Inr [2, 3, 4, 5, 6, 7, 8]" by code_simp
  have d: "[2, 3, 4, 5, 6, 7, 8] \<noteq> ([] :: int list)" by simp
  show "(StructuredTraceIndexer_getitem [4, 3, 2] (ISlice (Slice (Some 2) (Some 9) None)) =
       Inl MultiSliceError
     \<and> (\<exists>j<length [4, 3, 2 :: nat].
          \<not> is_ap (np_unique (map (\<lambda>k. unravel_coords [4, 3, 2] k ! j) [2, 3, 4, 5, 6, 7, 8]))))
    \<or> (\<exists>box recipe cells.
          StructuredTraceIndexer_getitem [4, 3, 2] (ISlice (Slice (Some 2) (Some 9) None)) =
            Inr (box, Some recipe)
        \<and> (\<forall>j<length [4, 3, 2 :: nat].
              is_ap (np_unique (map (\<lambda>k. unravel_coords [4, 3, 2] k ! j) [2, 3, 4, 5, 6, 7, 8])))
        \<and> box_cells [4, 3, 2] box = Inr cells
        \<and> length recipe = length [2, 3, 4, 5, 6, 7, 8 :: int]
        \<and> (\<forall>i\<in>set recipe. i < length cells)
        \<and> map (\<lambda>i. cells ! i) recipe = map (unravel_coords [4, 3, 2]) [2, 3, 4, 5, 6, 7, 8]
        \<and> map (\<lambda>i. map (ravel [4, 3, 2]) cells ! i) recipe =
            map (\<lambda>k. ravel [4, 3, 2] (unravel_coords [4, 3, 2] k)) [2, 3, 4, 5, 6, 7, 8]
        \<and> (\<forall>k\<in>set [2, 3, 4, 5, 6, 7, 8].
              StructuredTraceIndexer_get_one [4, 3, 2] k =
                Inr (map AInt (unravel_coords [4, 3, 2] k), None)))"
    by (rule getitem_selects_requested [OF a v b c d])
  show "StructuredTraceIndexer_getitem [4, 3, 2] (ISlice (Slice (Some 2) (Some 9) None)) =
       Inr ([ASlice (Slice (Some 0) (Some 2) (Some 1)),
             ASlice (Slice (Some 0) (Some 3) (Some 1)),
             ASlice (Slice (Some 0) (Some 2) (Some 1))],
            Some [2, 3, 4, 5, 6, 7, 8])"
    by code_simp
qed

text \<open>
  The claim as stated fails for the shape \<open>(2, 5)\<close> and \<^verbatim>\<open>slice(0, 10, 3)\<close>: the slice
  selects the flat indices \<open>0, 3, 6, 9\<close>, whose coordinates on the second axis are
  \<open>0, 1, 3, 4\<close>, and \<^verbatim>\<open>__getitem__\<close> raises \<^verbatim>\<open>MultiSliceError\<close> instead of returning a pair.
  It fails as well for the shape \<open>(4, 3, 2)\<close> and \<^verbatim>\<open>slice(8, 1, -1)\<close>: the slice enumerates
  the flat indices \<open>8, 7, \<dots>, 2\<close>, and the recipe returned is \<open>[2, \<dots>, 8]\<close>; with each cell
  holding its own flat index, taking the recipe's positions from the flattened bounding
  box gives \<open>2, 3, \<dots>, 8\<close>, the selected values in ascending order and not in the order
  the slice enumerates them.
\<close>

theorem getitem_selects_requested_counterexample:
  "slice_select (TraceIndexer_len [2, 5]) (Slice (Some 0) (Some 10) (Some 3)) =
     Inr [0, 3, 6, 9]
   \<and> StructuredTraceIndexer_getitem [2, 5] (ISlice (Slice (Some 0) (Some 10) (Some 3))) =
       Inl MultiSliceError
   \<and> slice_select (TraceIndexer_len [4, 3, 2]) (Slice (Some 8) (Some 1) (Some (- 1))) =
       Inr [8, 7, 6, 5, 4, 3, 2]
   \<and> StructuredTraceIndexer_getitem [4, 3, 2]
         (ISlice (Slice (Some 8) (Some 1) (Some (- 1)))) =
       Inr ([ASlice (Slice (Some 0) (Some 2) (Some 1)),
             ASlice (Slice (Some 0) (Some 3) (Some 1)),
             ASlice (Slice (Some 0) (Some 2) (Some 1))],
            Some [2, 3, 4, 5, 6, 7, 8])
   \<and> (case box_cells [4, 3, 2]
              [ASlice (Slice (Some 0) (Some 2) (Some 1)),
               ASlice (Slice (Some 0) (Some 3) (Some 1)),
               ASlice (Slice (Some 0) (Some 2) (Some 1))] of
         Inl e \<Rightarrow> []
       | Inr cells \<Rightarrow> map (\<lambda>i. map (ravel [4, 3, 2]) cells ! i) [2, 3, 4, 5, 6, 7, 8]) =
       [2, 3, 4, 5, 6, 7, 8]
   \<and> map (\<lambda>k. ravel [4, 3, 2] (unravel_coords [4, 3, 2] k)) [8, 7, 6, 5, 4, 3, 2] =
       [8, 7, 6, 5, 4, 3, 2]"
  by (intro conjI; code_simp)

section \<open>Properties of the composite accessor\<close>

lemma Lines_init_default_offset:
  assumes "Lines_init name ldt lbls odt offsets d = Inr L"
  shows "offsets \<noteq> []" "default_offset L = offsets ! 0"
  using assms by (auto simp: Lines_init_def split: sum.splits list.splits)

text \<open>
  Claim C9. For a \<^verbatim>\<open>Lines\<close> accessor and every index \<open>i\<close> that is not a tuple,
  \<^verbatim>\<open>__getitem__(i)\<close> returns what \<^verbatim>\<open>__getitem__((i, o0))\<close> returns, where \<open>o0\<close> is the first
  element of the offset array given at construction.
\<close>

theorem Lines_getitem_default_offset:
  assumes "Lines_init name ldt lbls odt offsets d = Inr L"
  shows "offsets \<noteq> [] \<and> default_offset L = offsets ! 0
       \<and> Lines_getitem L (LinesOne i) = Lines_getitem L (LinesTuple [i, AInt (offsets ! 0)])"
  using Lines_init_default_offset[OF assms] by (simp add: Lines_getitem_def)

lemma example_label_indexer:
  "LabelIndexer_init (Integer Int64) [1, 2, 3] =
     Inr \<lparr>labels = [1, 2, 3], labels_dtype = Int64, min_label = 1,
                            max_label = 4, sorter = [0, 1, 2]\<rparr>"
  by code_simp

lemma example_offset_indexer:
  "LabelIndexer_init (Integer Int64) [5, 6] =
     Inr \<lparr>labels = [5, 6], labels_dtype = Int64, min_label = 5,
                             max_label = 7, sorter = [0, 1]\<rparr>"
  by code_simp

lemma example_lines:
  "Lines_init ''ilines'' (Integer Int64) [1, 2, 3] (Integer Int64) [5, 6] echo_storage =
    Inr \<lparr>dim_name = ''ilines'',
         label_indexer = \<lparr>labels = [1, 2, 3], labels_dtype = Int64, min_label = 1,
                            max_label = 4, sorter = [0, 1, 2]\<rparr>,
         offset_indexer = \<lparr>labels = [5, 6], labels_dtype = Int64, min_label = 5,
                             max_label = 7, sorter = [0, 1]\<rparr>,
         default_offset = 5, data = echo_storage\<rparr>"
  by (simp add: Lines_init_def example_label_indexer example_offset_indexer)

theorem Lines_getitem_default_offset_witness:
  "[5, 6] \<noteq> ([] :: int list)
   \<and> default_offset \<lparr>dim_name = ''ilines'',
         label_indexer = \<lparr>labels = [1, 2, 3], labels_dtype = Int64, min_label = 1,
                            max_label = 4, sorter = [0, 1, 2]\<rparr>,
         offset_indexer = \<lparr>labels = [5, 6], labels_dtype = Int64, min_label = 5,
                             max_label = 7, sorter = [0, 1]\<rparr>,
         default_offset = 5, data = echo_storage\<rparr> = [5, 6] ! 0
   \<and> Lines_getitem \<lparr>dim_name = ''ilines'',
         label_indexer = \<lparr>labels = [1, 2, 3], labels_dtype = Int64, min_label = 1,
                            max_label = 4, sorter = [0, 1, 2]\<rparr>,
         offset_indexer = \<lparr>labels = [5, 6], labels_dtype = Int64, min_label = 5,
                             max_label = 7, sorter = [0, 1]\<rparr>,
         default_offset = 5, data = echo_storage\<rparr> (LinesOne (AInt 2)) =
       Lines_getitem \<lparr>dim_name = ''ilines'',
         label_indexer = \<lparr>labels = [1, 2, 3], labels_dtype = Int64, min_label = 1,
                            max_label = 4, sorter = [0, 1, 2]\<rparr>,
         offset_indexer = \<lparr>labels = [5, 6], labels_dtype = Int64, min_label = 5,
                             max_label = 7, sorter = [0, 1]\<rparr>,
         default_offset = 5, data = echo_storage\<rparr> (LinesTuple [AInt 2, AInt ([5, 6] ! 0)])"
  by (rule Lines_getitem_default_offset [OF example_lines])

end
